theory Spec2Isabelle
  imports Complex_Main "HOL-Library.Word" "HOL-Library.Signed_Division"
begin

unbundle bit_operations_syntax

section \<open>The MPU-9250 driver (libraries/mpu9250/mpu9250.c)\<close>

text \<open>
  The driver runs on a 32-bit ARM board, so \<open>int\<close> and \<open>long\<close> are 32 bits wide,
  \<open>unsigned short\<close> and \<open>int16_t\<close> 16 bits and \<open>unsigned char\<close> 8 bits. The comment
  above \<open>check_quaternion_validity\<close> (scaling "to avoid long long math") relies on that
  width of \<open>long\<close>. Values of C type \<open>int\<close> that cannot overflow in the modelled
  code (return codes, offsets into the FIFO buffer) are \<open>int\<close> and \<open>nat\<close>. Integer
  division is C's, truncating towards zero (\<open>sdiv\<close>); a division by zero is a fault of
  its own, not a number. Output on \<open>stdout\<close> and the calls to \<open>usleep\<close> are left out.
\<close>

type_synonym byte = "8 word"
type_synonym ushort = "16 word"
type_synonym int16_t = "16 word"
type_synonym long = "32 word"

subsection \<open>Quaternion validity check\<close>

definition QUAT_ERROR_THRESH :: long where
  "QUAT_ERROR_THRESH = push_bit 16 1"

definition QUAT_MAG_SQ_NORMALIZED :: long where
  "QUAT_MAG_SQ_NORMALIZED = push_bit 28 1"

definition QUAT_MAG_SQ_MIN :: long where
  "QUAT_MAG_SQ_MIN = QUAT_MAG_SQ_NORMALIZED - QUAT_ERROR_THRESH"

definition QUAT_MAG_SQ_MAX :: long where
  "QUAT_MAG_SQ_MAX = QUAT_MAG_SQ_NORMALIZED + QUAT_ERROR_THRESH"

text \<open>
  \<open>((long)raw[k] << 24) | ((long)raw[k+1] << 16) | ((long)raw[k+2] << 8) | raw[k+3]\<close>:
  four buffer bytes, most significant first, in a 32-bit \<open>long\<close>. A first byte of 128 or
  more lands in the sign bit.
\<close>

definition parse_long :: "byte list \<Rightarrow> nat \<Rightarrow> long" where
  "parse_long raw k =
     push_bit 24 (ucast (raw ! k)) OR push_bit 16 (ucast (raw ! (k + 1))) OR
     push_bit 8 (ucast (raw ! (k + 2))) OR ucast (raw ! (k + 3))"

text \<open>
  \<open>check_quaternion_validity(raw, i)\<close>. The shift \<open>quat[k] >> 16\<close> of a signed \<open>long\<close>
  is the arithmetic shift, the products and their sum are 32-bit \<open>long\<close> arithmetic, and the
  two comparisons are signed. The source repeats the range test; so does the model.
\<close>

definition check_quaternion_validity :: "byte list \<Rightarrow> nat \<Rightarrow> int" where
  "check_quaternion_validity raw i =
    (let quat0 = parse_long raw (i + 0);
         quat1 = parse_long raw (i + 4);
         quat2 = parse_long raw (i + 8);
         quat3 = parse_long raw (i + 12);
         quat_q14_0 = signed_drop_bit 16 quat0;
         quat_q14_1 = signed_drop_bit 16 quat1;
         quat_q14_2 = signed_drop_bit 16 quat2;
         quat_q14_3 = signed_drop_bit 16 quat3;
         quat_mag_sq = quat_q14_0 * quat_q14_0 + quat_q14_1 * quat_q14_1 +
                       quat_q14_2 * quat_q14_2 + quat_q14_3 * quat_q14_3
     in if quat_mag_sq <s QUAT_MAG_SQ_MIN \<or> QUAT_MAG_SQ_MAX <s quat_mag_sq then 0
        else if quat_mag_sq <s QUAT_MAG_SQ_MIN \<or> QUAT_MAG_SQ_MAX <s quat_mag_sq then 0
        else 1)"

text \<open>
  The same check in the words of the specification, over the integers: a signed 32-bit
  big-endian field, its value shifted right by 16 bits (rounding down), and the sum of the
  four squares, none of them reduced modulo anything.
\<close>

definition spec_quat_field :: "byte list \<Rightarrow> nat \<Rightarrow> int" where
  "spec_quat_field raw k =
    (let u = uint (raw ! k) * 2 ^ 24 + uint (raw ! (k + 1)) * 2 ^ 16 +
             uint (raw ! (k + 2)) * 2 ^ 8 + uint (raw ! (k + 3))
     in if u < 2 ^ 31 then u else u - 2 ^ 32)"

definition spec_quat_q14 :: "byte list \<Rightarrow> nat \<Rightarrow> int" where
  "spec_quat_q14 raw k = spec_quat_field raw k div 2 ^ 16"

definition spec_quat_mag_sq :: "byte list \<Rightarrow> nat \<Rightarrow> int" where
  "spec_quat_mag_sq raw i =
     (spec_quat_q14 raw i)\<^sup>2 + (spec_quat_q14 raw (i + 4))\<^sup>2 +
     (spec_quat_q14 raw (i + 8))\<^sup>2 + (spec_quat_q14 raw (i + 12))\<^sup>2"

definition spec_quat_valid :: "byte list \<Rightarrow> nat \<Rightarrow> bool" where
  "spec_quat_valid raw i \<longleftrightarrow>
     2 ^ 28 - 2 ^ 16 \<le> spec_quat_mag_sq raw i \<and> spec_quat_mag_sq raw i \<le> 2 ^ 28 + 2 ^ 16"

subsection \<open>Collaborators and header constants\<close>

text \<open>
  The sources include \<open>mpu9250_defs.h\<close>, \<open>dmp_firmware.h\<close>, \<open>dmpKey.h\<close> and
  \<open>roboticscape.h\<close> and call the I2C transport and the vector and quaternion helpers of the
  library; none of these files is part of the sources at hand. What the driver takes from
  them is a parameter of the model, collected in an environment: the bus primitives, the
  register addresses and bit masks, the DMP constants with the firmware image, the
  floating-point arithmetic, and the numeric helpers. Every theorem below holds for all
  environments unless it says otherwise.

  Floating-point values have an abstract type \<open>'f\<close>. \<open>f_of_rat\<close> is the value of a decimal
  literal or of an integer converted to floating point; the arithmetic and the comparisons are
  whatever the target does, roundings included.
\<close>

record 'f fpu =
  f_of_rat :: "rat \<Rightarrow> 'f"
  fmul :: "'f \<Rightarrow> 'f \<Rightarrow> 'f"
  fdiv :: "'f \<Rightarrow> 'f \<Rightarrow> 'f"
  fsub :: "'f \<Rightarrow> 'f \<Rightarrow> 'f"
  feq :: "'f \<Rightarrow> 'f \<Rightarrow> bool"
  fgt :: "'f \<Rightarrow> 'f \<Rightarrow> bool"

text \<open>
  The bus: a device state \<open>'s\<close> and three primitives on it. A write of a block of bytes to
  a register returns 0 on success (\<open>i2c_write_byte\<close> is the one-byte block); a block read
  returns the number of bytes read, or a negative number, together with the bytes it put at
  the front of the caller's buffer; a word read returns a negative number on failure.
  Setting the device address and claiming or releasing the bus change nothing that the
  driver reads back, and are left out.
\<close>

record 's i2c_bus =
  bus_write :: "'s \<Rightarrow> byte \<Rightarrow> byte list \<Rightarrow> int \<times> 's"
  bus_read :: "'s \<Rightarrow> byte \<Rightarrow> nat \<Rightarrow> (int \<times> byte list) \<times> 's"
  bus_read_word :: "'s \<Rightarrow> byte \<Rightarrow> (int \<times> ushort) \<times> 's"

text \<open>
  The hardware as the driver sees it: the device state and the log of the register writes
  issued so far, each with its register and its bytes.
\<close>

record 's hw =
  dev :: 's
  wlog :: "(byte \<times> byte list) list"

record mpu_regs =
  INT_ENABLE :: byte
  FIFO_EN :: byte
  USER_CTRL :: byte
  FIFO_COUNTH :: byte
  FIFO_R_W :: byte
  GYRO_CONFIG :: byte
  ACCEL_CONFIG :: byte
  MPU6500_BANK_SEL :: byte
  MPU6500_MEM_R_W :: byte
  MPU6500_PRGM_START_H :: byte

record 'f mpu_defs =
  BIT_FIFO_RST :: byte
  BIT_DMP_RST :: byte
  BIT_DMP_EN :: byte
  BIT_FIFO_EN :: byte
  I2C_MST_EN :: byte
  FIFO_SLV0_EN :: byte
  BIT_DMP_INT_EN :: byte
  FIFO_GYRO_X_EN :: byte
  FIFO_GYRO_Y_EN :: byte
  FIFO_GYRO_Z_EN :: byte
  GYRO_FSR_CFG_250 :: byte
  GYRO_FSR_CFG_500 :: byte
  GYRO_FSR_CFG_1000 :: byte
  GYRO_FSR_CFG_2000 :: byte
  FCHOICE_B_DLPF_EN :: byte
  ACCEL_FSR_CFG_2G :: byte
  ACCEL_FSR_CFG_4G :: byte
  ACCEL_FSR_CFG_8G :: byte
  ACCEL_FSR_CFG_16G :: byte
  MAX_FIFO_BUFFER :: nat
  MAG_RAW_TO_uT :: 'f

record dmp_defs =
  MPU6500_BANK_SIZE :: int
  DMP_LOAD_CHUNK :: int
  dmp_firmware :: "byte list"
  dmp_start_addr :: ushort
  DMP_MAX_RATE :: int
  D_0_22 :: ushort
  CFG_6 :: ushort
  DINAFE :: byte
  DINAF2 :: byte
  DINAAB :: byte
  DINAAA :: byte
  DINAF1 :: byte
  DINADF :: byte

text \<open>
  The numeric helpers. \<open>fusion_math\<close> stands for the arithmetic of \<open>data_fusion\<close> (tilt
  compensation, \<open>atan2f\<close>, the two filters and the spin counters, all of it floating point
  on state of its own, \<open>'z\<close>): from that state, the DMP angles and the magnetometer vector
  it gives the next state and, unless \<open>data_fusion\<close> returns early (invalid orientation,
  heading not a number), the raw heading, the fused yaw, the fused angles and the fused
  quaternion.
\<close>

record ('f, 'z) mathlib =
  normalizeQuaternion :: "'f list \<Rightarrow> 'f list"
  quaternionToTaitBryan :: "'f list \<Rightarrow> 'f list"
  fusion_math :: "'z \<Rightarrow> 'f list \<Rightarrow> 'f list \<Rightarrow> 'z \<times> ('f \<times> 'f \<times> 'f list \<times> 'f list) option"
  standard_deviation :: "'f list \<Rightarrow> 'f"

record ('s, 'f, 'z) env =
  bus :: "'s i2c_bus"
  regs :: mpu_regs
  defs :: "'f mpu_defs"
  dmp :: dmp_defs
  fp :: "'f fpu"
  lib :: "('f, 'z) mathlib"

subsection \<open>Bus access\<close>

definition i2c_write_bytes :: "'s i2c_bus \<Rightarrow> byte \<Rightarrow> byte list \<Rightarrow> 's hw \<Rightarrow> int \<times> 's hw" where
  "i2c_write_bytes b reg bs h =
     (let (r, d) = bus_write b (dev h) reg bs
      in (r, \<lparr>dev = d, wlog = wlog h @ [(reg, bs)]\<rparr>))"

definition i2c_write_byte :: "'s i2c_bus \<Rightarrow> byte \<Rightarrow> byte \<Rightarrow> 's hw \<Rightarrow> int \<times> 's hw" where
  "i2c_write_byte b reg v h = i2c_write_bytes b reg [v] h"

text \<open>
  A block read of \<open>n\<close> bytes into a buffer. The result holds the first \<open>n\<close> bytes of the
  buffer after the call; a position the bus did not fill reads as 0 (the FIFO buffer is
  zeroed before the read, and \<open>mpu_read_mem\<close> uses the bytes only when all \<open>n\<close>
  arrived).
\<close>

definition i2c_read_bytes :: "'s i2c_bus \<Rightarrow> byte \<Rightarrow> nat \<Rightarrow> 's hw \<Rightarrow> (int \<times> byte list) \<times> 's hw" where
  "i2c_read_bytes b reg n h =
     (let ((r, bs), d) = bus_read b (dev h) reg n
      in ((r, take n bs @ replicate (n - length bs) 0), h\<lparr>dev := d\<rparr>))"

definition i2c_read_word :: "'s i2c_bus \<Rightarrow> byte \<Rightarrow> 's hw \<Rightarrow> (int \<times> ushort) \<times> 's hw" where
  "i2c_read_word b reg h =
     (let (rw, d) = bus_read_word b (dev h) reg in (rw, h\<lparr>dev := d\<rparr>))"

text \<open>
  The same block read seen with the caller's buffer: the bytes that the bus delivered
  overwrite the front of the buffer, the rest of the buffer is what it was before the
  call. \<open>calibrate_gyro_routine\<close> reads its buffer whatever the call returned.
\<close>

definition i2c_read_bytes_into ::
  "'s i2c_bus \<Rightarrow> byte \<Rightarrow> nat \<Rightarrow> byte list \<Rightarrow> 's hw \<Rightarrow> (int \<times> byte list) \<times> 's hw" where
  "i2c_read_bytes_into b reg n buf h =
     (let ((r, bs), d) = bus_read b (dev h) reg n;
          got = take n bs
      in ((r, got @ drop (length got) buf), h\<lparr>dev := d\<rparr>))"

subsection \<open>Full-scale ranges\<close>

text \<open>
  The sample record \<open>imu_data_t\<close>, with the fields the driver reads and writes. The
  full-scale enumerations \<open>gyro_fsr_t\<close> and \<open>accel_fsr_t\<close> have four values each; the extra
  constructor stands for any other integer passed in their place, the \<open>default\<close> branch of
  the two switches.
\<close>

record 'f imu_data =
  accel :: "'f list"
  gyro :: "'f list"
  mag :: "'f list"
  temp :: 'f
  raw_gyro :: "int16_t list"
  raw_accel :: "int16_t list"
  accel_to_ms2 :: 'f
  gyro_to_degs :: 'f
  dmp_quat :: "'f list"
  dmp_TaitBryan :: "'f list"
  fused_quat :: "'f list"
  fused_TaitBryan :: "'f list"
  compass_heading :: 'f
  compass_heading_raw :: 'f

datatype gyro_fsr_t = G_FSR_250DPS | G_FSR_500DPS | G_FSR_1000DPS | G_FSR_2000DPS | G_FSR_OTHER

datatype accel_fsr_t = A_FSR_2G | A_FSR_4G | A_FSR_8G | A_FSR_16G | A_FSR_OTHER

text \<open>
  \<open>set_gyro_fsr\<close> and \<open>set_accel_fsr\<close>: the conversion factor is stored in the sample
  record, then the configuration byte is written and the result of that write returned. The
  \<open>default\<close> branch returns \<open>-1\<close> before either.
\<close>

definition set_gyro_fsr ::
  "('s, 'f, 'z) env \<Rightarrow> gyro_fsr_t \<Rightarrow> 'f imu_data \<Rightarrow> 's hw \<Rightarrow> int \<times> 'f imu_data \<times> 's hw" where
  "set_gyro_fsr e fsr d h =
     (let flt = f_of_rat (fp e);
          store = (\<lambda>c v. (let (r, h') = i2c_write_byte (bus e) (GYRO_CONFIG (regs e)) c h
                           in (r, d\<lparr>gyro_to_degs := v\<rparr>, h')))
      in case fsr of
           G_FSR_250DPS \<Rightarrow>
             store (GYRO_FSR_CFG_250 (defs e) OR FCHOICE_B_DLPF_EN (defs e))
                   (fdiv (fp e) (flt 250) (flt 32768))
         | G_FSR_500DPS \<Rightarrow>
             store (GYRO_FSR_CFG_500 (defs e) OR FCHOICE_B_DLPF_EN (defs e))
                   (fdiv (fp e) (flt 500) (flt 32768))
         | G_FSR_1000DPS \<Rightarrow>
             store (GYRO_FSR_CFG_1000 (defs e) OR FCHOICE_B_DLPF_EN (defs e))
                   (fdiv (fp e) (flt 1000) (flt 32768))
         | G_FSR_2000DPS \<Rightarrow>
             store (GYRO_FSR_CFG_2000 (defs e) OR FCHOICE_B_DLPF_EN (defs e))
                   (fdiv (fp e) (flt 2000) (flt 32768))
         | G_FSR_OTHER \<Rightarrow> (- 1, d, h))"

definition set_accel_fsr ::
  "('s, 'f, 'z) env \<Rightarrow> accel_fsr_t \<Rightarrow> 'f imu_data \<Rightarrow> 's hw \<Rightarrow> int \<times> 'f imu_data \<times> 's hw" where
  "set_accel_fsr e fsr d h =
     (let flt = f_of_rat (fp e);
          store = (\<lambda>c v. (let (r, h') = i2c_write_byte (bus e) (ACCEL_CONFIG (regs e)) c h
                           in (r, d\<lparr>accel_to_ms2 := v\<rparr>, h')))
      in case fsr of
           A_FSR_2G \<Rightarrow>
             store (ACCEL_FSR_CFG_2G (defs e))
                   (fdiv (fp e) (fmul (fp e) (flt (9807 / 1000)) (flt 2)) (flt 32768))
         | A_FSR_4G \<Rightarrow>
             store (ACCEL_FSR_CFG_4G (defs e))
                   (fdiv (fp e) (fmul (fp e) (flt (9807 / 1000)) (flt 4)) (flt 32768))
         | A_FSR_8G \<Rightarrow>
             store (ACCEL_FSR_CFG_8G (defs e))
                   (fdiv (fp e) (fmul (fp e) (flt (9807 / 1000)) (flt 8)) (flt 32768))
         | A_FSR_16G \<Rightarrow>
             store (ACCEL_FSR_CFG_16G (defs e))
                   (fdiv (fp e) (fmul (fp e) (flt (9807 / 1000)) (flt 16)) (flt 32768))
         | A_FSR_OTHER \<Rightarrow> (- 1, d, h))"

text \<open>
  The documented formulas: \<open>range / 32768\<close> and \<open>9.807 * range / 32768\<close>, evaluated
  left to right in the target's floating point.
\<close>

definition spec_gyro_to_degs :: "'f fpu \<Rightarrow> rat \<Rightarrow> 'f" where
  "spec_gyro_to_degs f rng = fdiv f (f_of_rat f rng) (f_of_rat f 32768)"

definition spec_accel_to_ms2 :: "'f fpu \<Rightarrow> rat \<Rightarrow> 'f" where
  "spec_accel_to_ms2 f rng =
     fdiv f (fmul f (f_of_rat f (9807 / 1000)) (f_of_rat f rng)) (f_of_rat f 32768)"

subsection \<open>DMP memory, firmware and FIFO rate\<close>

text \<open>
  \<open>mpu_write_mem\<close> and \<open>mpu_read_mem\<close>: bank-boundary check, bank select, then the
  transfer. The callers never pass a null buffer. The length argument of \<open>mpu_write_mem\<close> is
  the length of the block.
\<close>

definition mpu_write_mem ::
  "('s, 'f, 'z) env \<Rightarrow> ushort \<Rightarrow> byte list \<Rightarrow> 's hw \<Rightarrow> int \<times> 's hw" where
  "mpu_write_mem e mem_addr data h =
     (let tmp0 = (ucast (drop_bit 8 mem_addr) :: byte);
          tmp1 = (ucast (mem_addr AND 0xFF) :: byte)
      in if uint tmp1 + int (length data) > MPU6500_BANK_SIZE (dmp e) then (- 1, h)
         else let (r1, h1) = i2c_write_bytes (bus e) (MPU6500_BANK_SEL (regs e)) [tmp0, tmp1] h
              in if r1 \<noteq> 0 then (- 1, h1)
                 else let (r2, h2) = i2c_write_bytes (bus e) (MPU6500_MEM_R_W (regs e)) data h1
                      in if r2 \<noteq> 0 then (- 1, h2) else (0, h2))"

definition mpu_read_mem ::
  "('s, 'f, 'z) env \<Rightarrow> ushort \<Rightarrow> nat \<Rightarrow> 's hw \<Rightarrow> int \<times> byte list \<times> 's hw" where
  "mpu_read_mem e mem_addr len h =
     (let tmp0 = (ucast (drop_bit 8 mem_addr) :: byte);
          tmp1 = (ucast (mem_addr AND 0xFF) :: byte)
      in if uint tmp1 + int len > MPU6500_BANK_SIZE (dmp e) then (- 1, [], h)
         else let (r1, h1) = i2c_write_bytes (bus e) (MPU6500_BANK_SEL (regs e)) [tmp0, tmp1] h
              in if r1 \<noteq> 0 then (- 1, [], h1)
                 else let ((r2, bs), h2) = i2c_read_bytes (bus e) (MPU6500_MEM_R_W (regs e)) len h1
                      in if r2 \<noteq> int len then (- 1, bs, h2) else (0, bs, h2))"

text \<open>
  \<open>dmp_load_motion_driver_firmware\<close>. \<open>DMP_CODE_SIZE\<close> is the declared size of the
  \<open>dmp_firmware\<close> array. The loop counter \<open>ii\<close> and \<open>this_write\<close> are \<open>unsigned short\<close>.
  One pass of the loop body is \<open>load_chunk\<close>: write the chunk, read it back, compare
  (\<open>memcmp\<close>), with result 0 when the loop goes on, \<open>-1\<close> or \<open>-2\<close> when it returns.
  Nothing in the source bounds the number of passes (a chunk size of 0 would never advance),
  so the loop is a partial function and \<open>None\<close> means that it does not return. With a
  chunk size that is not positive the source would read outside the image; the constant is
  positive in any build of the driver.
\<close>

definition DMP_CODE_SIZE :: "dmp_defs \<Rightarrow> int" where
  "DMP_CODE_SIZE dd = int (length (dmp_firmware dd))"

definition this_write :: "dmp_defs \<Rightarrow> ushort \<Rightarrow> ushort" where
  "this_write dd ii = word_of_int (min (DMP_LOAD_CHUNK dd) (DMP_CODE_SIZE dd - uint ii))"

definition firmware_chunk :: "dmp_defs \<Rightarrow> ushort \<Rightarrow> byte list" where
  "firmware_chunk dd ii = take (unat (this_write dd ii)) (drop (unat ii) (dmp_firmware dd))"

definition load_chunk :: "('s, 'f, 'z) env \<Rightarrow> ushort \<Rightarrow> 's hw \<Rightarrow> int \<times> 's hw" where
  "load_chunk e ii h =
     (let (r1, h1) = mpu_write_mem e ii (firmware_chunk (dmp e) ii) h
      in if r1 \<noteq> 0 then (- 1, h1)
         else let (r2, cur, h2) = mpu_read_mem e ii (unat (this_write (dmp e) ii)) h1
              in if r2 \<noteq> 0 then (- 1, h2)
                 else if firmware_chunk (dmp e) ii \<noteq> cur then (- 2, h2)
                 else (0, h2))"

partial_function (option) firmware_loop ::
  "('s, 'f, 'z) env \<Rightarrow> ushort \<Rightarrow> 's hw \<Rightarrow> (int \<times> 's hw) option" where
  "firmware_loop e ii h =
     (if uint ii < DMP_CODE_SIZE (dmp e)
      then (case load_chunk e ii h of
              (r, h') \<Rightarrow> if r \<noteq> 0 then Some (r, h')
                         else firmware_loop e (ii + this_write (dmp e) ii) h')
      else Some (0, h))"

definition dmp_load_motion_driver_firmware ::
  "('s, 'f, 'z) env \<Rightarrow> 's hw \<Rightarrow> (int \<times> 's hw) option" where
  "dmp_load_motion_driver_firmware e h =
     (case firmware_loop e 0 h of
        None \<Rightarrow> None
      | Some (r, h1) \<Rightarrow>
          if r \<noteq> 0 then Some (r, h1)
          else let tmp0 = (ucast (drop_bit 8 (dmp_start_addr (dmp e))) :: byte);
                   tmp1 = (ucast (dmp_start_addr (dmp e) AND 0xFF) :: byte);
                   (r2, h2) = i2c_write_bytes (bus e) (MPU6500_PRGM_START_H (regs e)) [tmp0, tmp1] h1
               in if r2 \<noteq> 0 then Some (- 1, h2) else Some (0, h2))"

text \<open>
  The state at the head of the loop after \<open>k\<close> chunks have been written and verified:
  the offset of the next chunk and the hardware state, if the load got that far.
\<close>

primrec loop_head :: "('s, 'f, 'z) env \<Rightarrow> 's hw \<Rightarrow> nat \<Rightarrow> (ushort \<times> 's hw) option" where
  "loop_head e h0 0 = Some (0, h0)"
| "loop_head e h0 (Suc k) =
     (case loop_head e h0 k of
        None \<Rightarrow> None
      | Some (ii, h) \<Rightarrow>
          if uint ii < DMP_CODE_SIZE (dmp e)
          then (case load_chunk e ii h of
                  (r, h') \<Rightarrow> if r = 0 then Some (ii + this_write (dmp e) ii, h') else None)
          else None)"

text \<open>
  \<open>dmp_set_fifo_rate\<close>. The only test before the division \<open>DMP_MAX_RATE / rate\<close> is
  \<open>rate > DMP_MAX_RATE\<close>; for \<open>rate = 0\<close> the division is by zero.
\<close>

datatype fault = DivisionByZero

definition regs_end :: "dmp_defs \<Rightarrow> byte list" where
  "regs_end dd = [DINAFE dd, DINAF2 dd, DINAAB dd, 0xc4, DINAAA dd, DINAF1 dd,
                  DINADF dd, DINADF dd, 0xBB, 0xAF, DINADF dd, DINADF dd]"

definition dmp_set_fifo_rate ::
  "('s, 'f, 'z) env \<Rightarrow> ushort \<Rightarrow> 's hw \<Rightarrow> fault + int \<times> 's hw" where
  "dmp_set_fifo_rate e rate h =
     (if uint rate > DMP_MAX_RATE (dmp e) then Inr (- 1, h)
      else if uint rate = 0 then Inl DivisionByZero
      else let divider = (word_of_int (DMP_MAX_RATE (dmp e) sdiv uint rate - 1) :: ushort);
               tmp0 = (ucast (drop_bit 8 divider AND 0xFF) :: byte);
               tmp1 = (ucast (divider AND 0xFF) :: byte);
               (r1, h1) = mpu_write_mem e (D_0_22 (dmp e)) [tmp0, tmp1] h
           in if r1 \<noteq> 0 then Inr (- 1, h1)
              else let (r2, h2) = mpu_write_mem e (CFG_6 (dmp e)) (regs_end (dmp e)) h1
                   in if r2 \<noteq> 0 then Inr (- 1, h2) else Inr (0, h2))"

text \<open>
  The divider as an integer, and the two bytes (high, low) of a 16-bit value, as
  \<open>mpu_write_mem\<close> sends a memory address and \<open>dmp_set_fifo_rate\<close> the divider.
\<close>

definition spec_divider :: "dmp_defs \<Rightarrow> ushort \<Rightarrow> int" where
  "spec_divider dd rate = DMP_MAX_RATE dd div uint rate - 1"

definition mem_addr_bytes :: "ushort \<Rightarrow> byte list" where
  "mem_addr_bytes a = [ucast (drop_bit 8 a), ucast a]"

subsection \<open>FIFO reset\<close>

text \<open>
  The globals of the driver that the FIFO code uses (\<open>config.enable_magnetometer\<close>,
  \<open>dmp_en\<close>, \<open>packet_len\<close>, the magnetometer calibration), the static \<open>first_run\<close> of
  \<open>read_dmp_fifo\<close>, the state of \<open>data_fusion\<close>, and the caller's sample record behind
  \<open>data_ptr\<close>. \<open>config.show_warnings\<close> only selects what is printed.
\<close>

record ('s, 'f, 'z) driver =
  hw :: "'s hw"
  enable_magnetometer :: bool
  dmp_en :: bool
  packet_len :: int
  mag_factory_adjust :: "'f list"
  mag_offsets :: "'f list"
  mag_scales :: "'f list"
  first_run :: bool
  fusion_state :: 'z
  data :: "'f imu_data"

text \<open>
  \<open>mpu_reset_fifo\<close>: the first four writes abort the reset when they fail, the results of
  the last two are ignored.
\<close>

definition mpu_reset_fifo :: "('s, 'f, 'z) env \<Rightarrow> bool \<Rightarrow> bool \<Rightarrow> 's hw \<Rightarrow> int \<times> 's hw" where
  "mpu_reset_fifo e en_mag en_dmp h =
     (let (r1, h1) = i2c_write_byte (bus e) (INT_ENABLE (regs e)) 0 h
      in if r1 \<noteq> 0 then (- 1, h1)
      else let (r2, h2) = i2c_write_byte (bus e) (FIFO_EN (regs e)) 0 h1
      in if r2 \<noteq> 0 then (- 1, h2)
      else let (r3, h3) = i2c_write_byte (bus e) (USER_CTRL (regs e))
                            (BIT_FIFO_RST (defs e) OR BIT_DMP_RST (defs e)) h2
      in if r3 \<noteq> 0 then (- 1, h3)
      else let data0 = BIT_DMP_EN (defs e) OR BIT_FIFO_EN (defs e);
               data1 = (if en_mag then data0 OR I2C_MST_EN (defs e) else data0);
               (r4, h4) = i2c_write_byte (bus e) (USER_CTRL (regs e)) data1 h3
      in if r4 \<noteq> 0 then (- 1, h4)
      else let h5 = snd (if en_mag
                         then i2c_write_byte (bus e) (FIFO_EN (regs e)) (FIFO_SLV0_EN (defs e)) h4
                         else i2c_write_byte (bus e) (FIFO_EN (regs e)) 0 h4);
               h6 = snd (if en_dmp
                         then i2c_write_byte (bus e) (INT_ENABLE (regs e)) (BIT_DMP_INT_EN (defs e)) h5
                         else i2c_write_byte (bus e) (INT_ENABLE (regs e)) 0 h5)
      in (0, h6))"

subsection \<open>Reading the DMP FIFO\<close>

text \<open>
  \<open>read_dmp_fifo\<close> first sorts the FIFO byte count into one of three outcomes: nothing to
  read, a jump to \<open>READ_FIFO\<close> with the offset \<open>i\<close> and the flags \<open>mag_data_available\<close>
  and \<open>dmp_data_available\<close>, or an unexpected length. The tests are in the order of the
  source.
\<close>

definition FIFO_LEN_NO_MAG :: nat where
  "FIFO_LEN_NO_MAG = 28"

definition FIFO_LEN_MAG :: nat where
  "FIFO_LEN_MAG = 35"

datatype fifo_class = Empty_Fifo | Read_Fifo nat bool bool | Weird_Length

definition fifo_classify :: "ushort \<Rightarrow> fifo_class" where
  "fifo_classify fifo_count =
     (if fifo_count = 0 then Empty_Fifo
      else if unat fifo_count = FIFO_LEN_NO_MAG then Read_Fifo 0 False True
      else if unat fifo_count = FIFO_LEN_MAG then Read_Fifo 0 True True
      else if fifo_count = 42 then Read_Fifo 7 False True
      else if fifo_count = 63 then Read_Fifo 28 False True
      else if fifo_count = 77 then Read_Fifo 42 False True
      else if unat fifo_count = 2 * FIFO_LEN_NO_MAG then Read_Fifo FIFO_LEN_NO_MAG False True
      else if unat fifo_count = 2 * FIFO_LEN_MAG then Read_Fifo FIFO_LEN_MAG True True
      else if fifo_count = 7 \<or> fifo_count = 14 \<or> fifo_count = 21
           then Read_Fifo (unat fifo_count - 7) True False
      else Weird_Length)"

text \<open>
  At \<open>READ_FIFO\<close> the buffer of \<open>MAX_FIFO_BUFFER\<close> bytes is zeroed and the FIFO read
  into it, a second time if the first read returned an error. For the offsets below to stay
  inside the buffer \<open>MAX_FIFO_BUFFER\<close> has to be at least 77, the largest count that is read.
\<close>

definition fifo_block_read ::
  "('s, 'f, 'z) env \<Rightarrow> nat \<Rightarrow> 's hw \<Rightarrow> (int \<times> byte list) \<times> 's hw" where
  "fifo_block_read e n h =
     (let (rb, h1) = i2c_read_bytes (bus e) (FIFO_R_W (regs e)) n h
      in if fst rb < 0 then i2c_read_bytes (bus e) (FIFO_R_W (regs e)) n h1 else (rb, h1))"

definition fifo_buffer :: "('s, 'f, 'z) env \<Rightarrow> byte list \<Rightarrow> byte list" where
  "fifo_buffer e bs = bs @ replicate (MAX_FIFO_BUFFER (defs e) - length bs) 0"

text \<open>
  Where the quaternion is: after the 7 magnetometer bytes (first choice, tried only with the
  magnetometer enabled) or before them. The result is the offset \<open>j\<close> of the DMP data and
  the offset \<open>i\<close> of the magnetometer data, or nothing when neither candidate is valid.
\<close>

definition locate_quaternion :: "bool \<Rightarrow> byte list \<Rightarrow> nat \<Rightarrow> (nat \<times> nat) option" where
  "locate_quaternion en_mag raw i =
     (if en_mag \<and> check_quaternion_validity raw (i + 7) \<noteq> 0 then Some (i + 7, i)
      else if check_quaternion_validity raw i \<noteq> 0 then Some (i, i + FIFO_LEN_NO_MAG)
      else None)"

definition parse_int16_be :: "byte list \<Rightarrow> nat \<Rightarrow> int16_t" where
  "parse_int16_be raw j = push_bit 8 (ucast (raw ! j)) OR ucast (raw ! (j + 1))"

definition parse_int16_le :: "byte list \<Rightarrow> nat \<Rightarrow> int16_t" where
  "parse_int16_le raw i = push_bit 8 (ucast (raw ! (i + 1))) OR ucast (raw ! i)"

definition f_of_int16 :: "'f fpu \<Rightarrow> int16_t \<Rightarrow> 'f" where
  "f_of_int16 f w = f_of_rat f (of_int (sint w))"

definition store_dmp :: "('s, 'f, 'z) env \<Rightarrow> byte list \<Rightarrow> nat \<Rightarrow> 'f imu_data \<Rightarrow> 'f imu_data" where
  "store_dmp e raw j d =
     (let quat = [parse_long raw (j + 0), parse_long raw (j + 4),
                  parse_long raw (j + 8), parse_long raw (j + 12)];
          q = normalizeQuaternion (lib e) (map (\<lambda>w. f_of_rat (fp e) (of_int (sint w))) quat);
          j1 = j + 16;
          ra = [parse_int16_be raw (j1 + 0), parse_int16_be raw (j1 + 2), parse_int16_be raw (j1 + 4)];
          j2 = j1 + 6;
          rg = [parse_int16_be raw (0 + j2), parse_int16_be raw (2 + j2), parse_int16_be raw (4 + j2)]
      in d\<lparr>dmp_quat := q,
            dmp_TaitBryan := quaternionToTaitBryan (lib e) q,
            raw_accel := ra,
            accel := map (\<lambda>w. fmul (fp e) (f_of_int16 (fp e) w) (accel_to_ms2 d)) ra,
            raw_gyro := rg,
            gyro := map (\<lambda>w. fmul (fp e) (f_of_int16 (fp e) w) (gyro_to_degs d)) rg\<rparr>)"

definition mag_adc :: "byte list \<Rightarrow> nat \<Rightarrow> int16_t list" where
  "mag_adc raw i = [parse_int16_le raw (i + 0), parse_int16_le raw (i + 2), parse_int16_le raw (i + 4)]"

definition unset_scale :: "'f fpu \<Rightarrow> 'f \<Rightarrow> 'f" where
  "unset_scale f s = (if feq f s (f_of_rat f 0) then f_of_rat f 1 else s)"

definition store_mag ::
  "('s, 'f, 'z) env \<Rightarrow> byte list \<Rightarrow> nat \<Rightarrow> ('s, 'f, 'z) driver \<Rightarrow> ('s, 'f, 'z) driver" where
  "store_mag e raw i st =
     (let adc = mag_adc raw i
      in if adc ! 0 \<noteq> 0 \<or> adc ! 1 \<noteq> 0 \<or> adc ! 2 \<noteq> 0
         then
           (let f = fp e;
                factory_cal_data =
                  [fmul f (fmul f (f_of_rat f (of_int (sint (adc ! 1)))) (mag_factory_adjust st ! 1))
                          (MAG_RAW_TO_uT (defs e)),
                   fmul f (fmul f (f_of_rat f (of_int (sint (adc ! 0)))) (mag_factory_adjust st ! 0))
                          (MAG_RAW_TO_uT (defs e)),
                   fmul f (fmul f (f_of_rat f (of_int (- sint (adc ! 2)))) (mag_factory_adjust st ! 2))
                          (MAG_RAW_TO_uT (defs e))];
                scales = [unset_scale f (mag_scales st ! 0), unset_scale f (mag_scales st ! 1),
                          unset_scale f (mag_scales st ! 2)]
            in st\<lparr>mag_scales := scales,
                   data := (data st)\<lparr>mag :=
                     [fmul f (fsub f (factory_cal_data ! 0) (mag_offsets st ! 0)) (scales ! 0),
                      fmul f (fsub f (factory_cal_data ! 1) (mag_offsets st ! 1)) (scales ! 1),
                      fmul f (fsub f (factory_cal_data ! 2) (mag_offsets st ! 2)) (scales ! 2)]\<rparr>\<rparr>)
         else st)"

text \<open>
  \<open>data_fusion\<close> writes the fused angles, the fused quaternion and the two headings of the
  sample record, and nothing else of it; on its early returns it writes nothing.
\<close>

definition data_fusion :: "('s, 'f, 'z) env \<Rightarrow> ('s, 'f, 'z) driver \<Rightarrow> ('s, 'f, 'z) driver" where
  "data_fusion e st =
     (case fusion_math (lib e) (fusion_state st) (dmp_TaitBryan (data st)) (mag (data st)) of
        (z, None) \<Rightarrow> st\<lparr>fusion_state := z\<rparr>
      | (z, Some (heading_raw, new_yaw, fused_tb, fused_q)) \<Rightarrow>
          st\<lparr>fusion_state := z,
             data := (data st)\<lparr>compass_heading_raw := heading_raw,
                               compass_heading := new_yaw,
                               fused_TaitBryan := fused_tb,
                               fused_quat := fused_q\<rparr>\<rparr>)"

text \<open>
  The end of \<open>read_dmp_fifo\<close>, from the magnetometer block on, and the section from
  \<open>READ_FIFO\<close> to there. Besides the return code and the state the model returns the local
  flag \<open>is_new_dmp_data\<close>.
\<close>

definition finish_cycle ::
  "('s, 'f, 'z) env \<Rightarrow> byte list \<Rightarrow> nat \<Rightarrow> bool \<Rightarrow> bool \<Rightarrow> ('s, 'f, 'z) driver \<Rightarrow>
     int \<times> bool \<times> ('s, 'f, 'z) driver" where
  "finish_cycle e raw i mag_data_available is_new_dmp_data st =
     (let st1 = (if mag_data_available then store_mag e raw i st else st);
          st2 = (if is_new_dmp_data \<and> enable_magnetometer st1 then data_fusion e st1 else st1);
          st3 = (if is_new_dmp_data then st2\<lparr>first_run := False\<rparr> else st2)
      in (if is_new_dmp_data then 0 else - 1, is_new_dmp_data, st3))"

definition read_fifo ::
  "('s, 'f, 'z) env \<Rightarrow> ushort \<Rightarrow> nat \<Rightarrow> bool \<Rightarrow> bool \<Rightarrow> ('s, 'f, 'z) driver \<Rightarrow>
     int \<times> bool \<times> ('s, 'f, 'z) driver" where
  "read_fifo e fifo_count i mag_data_available dmp_data_available st =
     (let ((ret, bs), h) = fifo_block_read e (unat fifo_count) (hw st);
          st1 = st\<lparr>hw := h\<rparr>
      in if ret \<noteq> uint fifo_count then (- 1, False, st1)
         else let raw = fifo_buffer e bs
              in if dmp_data_available
                 then (case locate_quaternion (enable_magnetometer st1) raw i of
                         None \<Rightarrow>
                           (- 1, False,
                            st1\<lparr>hw := snd (mpu_reset_fifo e (enable_magnetometer st1) (dmp_en st1) h)\<rparr>)
                       | Some (j, i') \<Rightarrow>
                           finish_cycle e raw i' mag_data_available True
                             (st1\<lparr>data := store_dmp e raw j (data st1)\<rparr>))
                 else finish_cycle e raw i mag_data_available False st1)"

definition read_dmp_fifo_cycle ::
  "('s, 'f, 'z) env \<Rightarrow> ('s, 'f, 'z) driver \<Rightarrow> int \<times> bool \<times> ('s, 'f, 'z) driver" where
  "read_dmp_fifo_cycle e st =
     (if \<not> dmp_en st then (- 1, False, st)
      else if packet_len st \<noteq> int FIFO_LEN_NO_MAG \<and> packet_len st \<noteq> int FIFO_LEN_MAG
           then (- 1, False, st)
      else let ((r, fifo_count), h) = i2c_read_word (bus e) (FIFO_COUNTH (regs e)) (hw st);
               st1 = st\<lparr>hw := h\<rparr>
           in if r < 0 then (- 1, False, st1)
              else (case fifo_classify fifo_count of
                      Empty_Fifo \<Rightarrow> (- 1, False, st1)
                    | Read_Fifo i mag_data_available dmp_data_available \<Rightarrow>
                        read_fifo e fifo_count i mag_data_available dmp_data_available st1
                    | Weird_Length \<Rightarrow>
                        (- 1, False,
                         st1\<lparr>hw := snd (mpu_reset_fifo e (enable_magnetometer st1) (dmp_en st1) h)\<rparr>)))"

definition read_dmp_fifo :: "('s, 'f, 'z) env \<Rightarrow> ('s, 'f, 'z) driver \<Rightarrow> int \<times> ('s, 'f, 'z) driver" where
  "read_dmp_fifo e st = (case read_dmp_fifo_cycle e st of (ret, is_new_dmp_data, st') \<Rightarrow> (ret, st'))"

text \<open>
  The table of byte counts: for each count that is read, the offset \<open>i\<close> of the packet
  and whether the count carries magnetometer data and coprocessor data.
\<close>

definition spec_fifo_table :: "ushort \<Rightarrow> (nat \<times> bool \<times> bool) option" where
  "spec_fifo_table c =
     (if c = 28 then Some (0, False, True)
      else if c = 35 then Some (0, True, True)
      else if c = 56 then Some (28, False, True)
      else if c = 70 then Some (35, True, True)
      else if c = 42 then Some (7, False, True)
      else if c = 63 then Some (28, False, True)
      else if c = 77 then Some (42, False, True)
      else if c = 7 \<or> c = 14 \<or> c = 21 then Some (unat c - 7, True, False)
      else None)"

text \<open>
  What a cycle leaves in the sample record, in terms of the bytes of the FIFO buffer.
  Coprocessor data parsed at offset \<open>j\<close>: the quaternion of the four big-endian signed
  32-bit fields at \<open>j\<close>, normalised, and its angles; the three big-endian 16-bit
  accelerometer values at \<open>j + 16\<close> and the three gyro values at \<open>j + 22\<close>, raw and
  multiplied by the conversion factors that the record held. \<open>dmp_kept\<close>: none of these six
  fields has changed.
\<close>

definition dmp_parsed_at ::
  "('s, 'f, 'z) env \<Rightarrow> byte list \<Rightarrow> nat \<Rightarrow> 'f imu_data \<Rightarrow> 'f imu_data \<Rightarrow> bool" where
  "dmp_parsed_at e raw j d0 d \<longleftrightarrow>
     dmp_quat d = normalizeQuaternion (lib e)
       (map (\<lambda>k. f_of_rat (fp e) (of_int (spec_quat_field raw k))) [j, j + 4, j + 8, j + 12]) \<and>
     dmp_TaitBryan d = quaternionToTaitBryan (lib e) (dmp_quat d) \<and>
     raw_accel d = map (parse_int16_be raw) [j + 16, j + 18, j + 20] \<and>
     accel d = map (\<lambda>w. fmul (fp e) (f_of_int16 (fp e) w) (accel_to_ms2 d0)) (raw_accel d) \<and>
     raw_gyro d = map (parse_int16_be raw) [j + 22, j + 24, j + 26] \<and>
     gyro d = map (\<lambda>w. fmul (fp e) (f_of_int16 (fp e) w) (gyro_to_degs d0)) (raw_gyro d)"

definition dmp_kept :: "'f imu_data \<Rightarrow> 'f imu_data \<Rightarrow> bool" where
  "dmp_kept d0 d \<longleftrightarrow>
     dmp_quat d = dmp_quat d0 \<and> dmp_TaitBryan d = dmp_TaitBryan d0 \<and>
     raw_accel d = raw_accel d0 \<and> accel d = accel d0 \<and>
     raw_gyro d = raw_gyro d0 \<and> gyro d = gyro d0"

text \<open>
  The magnetometer record decoded at offset \<open>i\<close>: three little-endian 16-bit values. When
  they are not all zero, the field \<open>mag\<close> holds, per axis of the accelerometer frame (the
  first two axes swapped, the third negated), the value times the factory adjustment and
  \<open>MAG_RAW_TO_uT\<close>, minus the offset, times the scale, where a scale of 0 counts as 1.
  When they are all zero, \<open>mag\<close> and the scales are what they were.
\<close>

definition spec_mag_axis :: "('s, 'f, 'z) env \<Rightarrow> int \<Rightarrow> 'f \<Rightarrow> 'f \<Rightarrow> 'f \<Rightarrow> 'f" where
  "spec_mag_axis e adc adjust offset scale =
     fmul (fp e)
       (fsub (fp e)
          (fmul (fp e) (fmul (fp e) (f_of_rat (fp e) (of_int adc)) adjust) (MAG_RAW_TO_uT (defs e)))
          offset)
       (unset_scale (fp e) scale)"

definition mag_decoded_at ::
  "('s, 'f, 'z) env \<Rightarrow> byte list \<Rightarrow> nat \<Rightarrow> ('s, 'f, 'z) driver \<Rightarrow> ('s, 'f, 'z) driver \<Rightarrow> bool" where
  "mag_decoded_at e raw i st st' \<longleftrightarrow>
     (if parse_int16_le raw i = 0 \<and> parse_int16_le raw (i + 2) = 0 \<and> parse_int16_le raw (i + 4) = 0
      then mag (data st') = mag (data st) \<and> mag_scales st' = mag_scales st
      else mag (data st') =
             [spec_mag_axis e (sint (parse_int16_le raw (i + 2))) (mag_factory_adjust st ! 1)
                (mag_offsets st ! 0) (mag_scales st ! 0),
              spec_mag_axis e (sint (parse_int16_le raw i)) (mag_factory_adjust st ! 0)
                (mag_offsets st ! 1) (mag_scales st ! 1),
              spec_mag_axis e (- sint (parse_int16_le raw (i + 4))) (mag_factory_adjust st ! 2)
                (mag_offsets st ! 2) (mag_scales st ! 2)] \<and>
           mag_scales st' =
             [unset_scale (fp e) (mag_scales st ! 0), unset_scale (fp e) (mag_scales st ! 1),
              unset_scale (fp e) (mag_scales st ! 2)])"


definition after_writes :: "'s i2c_bus \<Rightarrow> (byte \<times> byte list) list \<Rightarrow> 's hw \<Rightarrow> 's hw" where
  "after_writes b ws h = foldl (\<lambda>g (reg, bs). snd (i2c_write_bytes b reg bs g)) h ws"

subsection \<open>The interrupt thread\<close>

text \<open>
  \<open>imu_interrupt_handler\<close> runs until the program exits. One pass sees, in this order:
  the loop condition, the return of \<open>poll\<close> and the same condition again, whether the
  event was the interrupt (\<open>POLLPRI\<close>), the result of \<open>read_dmp_fifo\<close>, and the value of
  \<open>interrupt_func_set\<close>, which another thread may change between passes. The model runs
  the loop over a finite sequence of such passes and reports, for every interrupt handled,
  whether the drain succeeded, whether a callback was registered, and whether it was called.
\<close>

record poll_event =
  exiting_before :: bool
  exiting_after :: bool
  pollpri :: bool
  read_ret :: int
  interrupt_func_set :: bool

record handled =
  drain_ok :: bool
  registered :: bool
  callback_invoked :: bool

fun interrupt_loop :: "bool \<Rightarrow> poll_event list \<Rightarrow> handled list" where
  "interrupt_loop handler_first_run [] = []"
| "interrupt_loop handler_first_run (ev # evs) =
     (if exiting_before ev then []
      else if exiting_after ev then []
      else if pollpri ev then
        (let last_read_successful = (read_ret ev = 0);
             seen = \<lparr>drain_ok = last_read_successful, registered = interrupt_func_set ev,
                     callback_invoked = False\<rparr>
         in if handler_first_run then seen # interrupt_loop False evs
            else if interrupt_func_set ev \<and> last_read_successful
                 then seen\<lparr>callback_invoked := True\<rparr> # interrupt_loop handler_first_run evs
            else seen # interrupt_loop handler_first_run evs)
      else interrupt_loop handler_first_run evs)"

definition imu_interrupt_handler :: "bool \<Rightarrow> poll_event list \<Rightarrow> handled list" where
  "imu_interrupt_handler gpio_fd_opened evs = (if \<not> gpio_fd_opened then [] else interrupt_loop True evs)"

text \<open>
  The claim that the first successful drain never calls the callback: among the handled
  interrupts, the first one with a successful drain has no call.
\<close>

definition spec_first_success_skipped :: "handled list \<Rightarrow> bool" where
  "spec_first_success_skipped hs =
     (case List.find drain_ok hs of None \<Rightarrow> True | Some seen \<Rightarrow> \<not> callback_invoked seen)"
subsection \<open>Gyro calibration\<close>

text \<open>
  \<open>calibrate_gyro_routine\<close> from the label \<open>COLLECT_DATA\<close> on. What comes before the
  label (bus claim, device reset, register set-up) either returns an error or goes on to the
  label, and writes nothing to disk. \<open>write_gyro_offets_to_disk\<close> depends on the file
  system: the file cannot be opened (nothing changes), it is opened and thereby truncated
  but the write fails, or the three offsets are stored.
\<close>

definition GYRO_CAL_THRESH :: int where
  "GYRO_CAL_THRESH = 50"

definition GYRO_OFFSET_THRESH :: int where
  "GYRO_OFFSET_THRESH = 500"

datatype disk_result = Open_Failed | Write_Failed | Written

datatype disk_effect = Untouched | Truncated | Stored "int list"

definition write_gyro_offets_to_disk :: "disk_result \<Rightarrow> int16_t list \<Rightarrow> int \<times> disk_effect" where
  "write_gyro_offets_to_disk fs offsets =
     (case fs of
        Open_Failed \<Rightarrow> (- 1, Untouched)
      | Write_Failed \<Rightarrow> (- 1, Truncated)
      | Written \<Rightarrow> (0, Stored [sint (offsets ! 0), sint (offsets ! 1), sint (offsets ! 2)]))"

text \<open>
  One attempt works on the local buffer \<open>data\<close> of 6 bytes (\<open>buf\<close> below), which the
  routine never initialises and which keeps its contents from one attempt to the next. The attempt enables
  the FIFO for the three gyro axes, stops it, and reads the two bytes of the FIFO count into
  the front of \<open>data\<close>; the result of that read is not looked at, so the count is taken from
  the buffer whether or not the read filled it. Then it reads \<open>fifo_count / 6\<close> samples of
  6 bytes into \<open>data\<close>, giving up when a read returns a negative number, and takes three
  big-endian 16-bit values from the buffer after each read. The sums are 32-bit, the offsets
  are the sums divided by the number of samples and cast to 16 bits.
\<close>

fun read_samples ::
  "('s, 'f, 'z) env \<Rightarrow> nat \<Rightarrow> byte list \<Rightarrow> 's hw \<Rightarrow>
     (int16_t \<times> int16_t \<times> int16_t) list option \<times> byte list \<times> 's hw" where
  "read_samples e 0 buf h = (Some [], buf, h)"
| "read_samples e (Suc n) buf h =
     (let ((r, buf1), h1) = i2c_read_bytes_into (bus e) (FIFO_R_W (regs e)) 6 buf h
      in if r < 0 then (None, buf1, h1)
         else (case read_samples e n buf1 h1 of
                 (None, buf2, h2) \<Rightarrow> (None, buf2, h2)
               | (Some rest, buf2, h2) \<Rightarrow>
                   (Some ((parse_int16_be buf1 0, parse_int16_be buf1 2, parse_int16_be buf1 4)
                          # rest), buf2, h2)))"

definition gather ::
  "('s, 'f, 'z) env \<Rightarrow> byte list \<Rightarrow> 's hw \<Rightarrow>
     int \<times> (int16_t \<times> int16_t \<times> int16_t) list option \<times> byte list \<times> 's hw" where
  "gather e buf h =
     (let h1 = snd (i2c_write_byte (bus e) (USER_CTRL (regs e)) 0x40 h);
          c = FIFO_GYRO_X_EN (defs e) OR FIFO_GYRO_Y_EN (defs e) OR FIFO_GYRO_Z_EN (defs e);
          h2 = snd (i2c_write_byte (bus e) (FIFO_EN (regs e)) c h1);
          h3 = snd (i2c_write_byte (bus e) (FIFO_EN (regs e)) 0x00 h2);
          ((r, buf1), h4) = i2c_read_bytes_into (bus e) (FIFO_COUNTH (regs e)) 2 buf h3;
          fifo_count = parse_int16_be buf1 0;
          samples = sint fifo_count sdiv 6;
          (got, buf2, h5) = read_samples e (nat samples) buf1 h4
      in (samples, got, buf2, h5))"

definition gyro_sum :: "int16_t list \<Rightarrow> 32 word" where
  "gyro_sum xs = foldl (\<lambda>acc x. acc + scast x) 0 xs"

definition gyro_offset :: "int \<Rightarrow> int16_t list \<Rightarrow> int16_t" where
  "gyro_offset samples xs = word_of_int (sint (gyro_sum xs) sdiv samples)"

definition too_noisy :: "('s, 'f, 'z) env \<Rightarrow> int16_t list \<Rightarrow> bool" where
  "too_noisy e xs =
     fgt (fp e) (standard_deviation (lib e) (map (f_of_int16 (fp e)) xs))
                (f_of_rat (fp e) (of_int GYRO_CAL_THRESH))"

text \<open>
  The two tests of an attempt: a standard deviation above \<open>GYRO_CAL_THRESH\<close> on some axis,
  and an offset of magnitude above \<open>GYRO_OFFSET_THRESH\<close> on some axis. With zero samples
  and no noise the division by \<open>samples\<close> is a division by zero. A noisy attempt and an
  attempt out of bounds go back to \<open>COLLECT_DATA\<close>, with the buffer and the hardware as
  the attempt left them; \<open>write_gyro_offets_to_disk\<close> is called after both tests only.
\<close>

definition noisy :: "('s, 'f, 'z) env \<Rightarrow> (int16_t \<times> int16_t \<times> int16_t) list \<Rightarrow> bool" where
  "noisy e ss \<longleftrightarrow>
     too_noisy e (map fst ss) \<or> too_noisy e (map (fst \<circ> snd) ss) \<or>
     too_noisy e (map (snd \<circ> snd) ss)"

definition gyro_offsets :: "int \<Rightarrow> (int16_t \<times> int16_t \<times> int16_t) list \<Rightarrow> int16_t list" where
  "gyro_offsets samples ss =
     [gyro_offset samples (map fst ss), gyro_offset samples (map (fst \<circ> snd) ss),
      gyro_offset samples (map (snd \<circ> snd) ss)]"

definition out_of_bounds :: "int16_t list \<Rightarrow> bool" where
  "out_of_bounds offsets \<longleftrightarrow>
     \<bar>sint (offsets ! 0)\<bar> > GYRO_OFFSET_THRESH \<or> \<bar>sint (offsets ! 1)\<bar> > GYRO_OFFSET_THRESH \<or>
     \<bar>sint (offsets ! 2)\<bar> > GYRO_OFFSET_THRESH"

datatype 's attempt = Retry "byte list" "'s hw" | Finished "fault + int" disk_effect "'s hw"

definition collect_attempt ::
  "('s, 'f, 'z) env \<Rightarrow> disk_result \<Rightarrow> byte list \<Rightarrow> 's hw \<Rightarrow> 's attempt" where
  "collect_attempt e fs buf h =
     (case gather e buf h of
        (samples, None, buf', h') \<Rightarrow> Finished (Inr (- 1)) Untouched h'
      | (samples, Some ss, buf', h') \<Rightarrow>
          if noisy e ss then Retry buf' h'
          else if samples = 0 then Finished (Inl DivisionByZero) Untouched h'
          else if out_of_bounds (gyro_offsets samples ss) then Retry buf' h'
          else (case write_gyro_offets_to_disk fs (gyro_offsets samples ss) of
                  (r, eff) \<Rightarrow> Finished (Inr (if r < 0 then - 1 else 0)) eff h'))"

partial_function (option) collect_data ::
  "('s, 'f, 'z) env \<Rightarrow> disk_result \<Rightarrow> byte list \<Rightarrow> 's hw \<Rightarrow>
     ((fault + int) \<times> disk_effect \<times> 's hw) option" where
  "collect_data e fs buf h =
     (case collect_attempt e fs buf h of
        Retry buf' h' \<Rightarrow> collect_data e fs buf' h'
      | Finished r eff h' \<Rightarrow> Some (r, eff, h'))"

text \<open>
  The buffer and the hardware at the label \<open>COLLECT_DATA\<close> after \<open>k\<close> attempts that
  all went back to the label, if the routine got that far.
\<close>

primrec attempt_head ::
  "('s, 'f, 'z) env \<Rightarrow> disk_result \<Rightarrow> byte list \<Rightarrow> 's hw \<Rightarrow> nat \<Rightarrow> (byte list \<times> 's hw) option" where
  "attempt_head e fs buf h 0 = Some (buf, h)"
| "attempt_head e fs buf h (Suc k) =
     (case attempt_head e fs buf h k of
        None \<Rightarrow> None
      | Some (buf1, h1) \<Rightarrow>
          (case collect_attempt e fs buf1 h1 of
             Retry buf2 h2 \<Rightarrow> Some (buf2, h2)
           | Finished r eff h2 \<Rightarrow> None))"

text \<open>
  The mean of the samples of one axis, over the integers; the noise test of one axis (the
  standard deviation of the samples, as floating-point numbers, is not above 50) and of a
  data set; the bound on three offsets, none of a magnitude above 500.
\<close>

definition spec_mean_offset :: "int16_t list \<Rightarrow> int" where
  "spec_mean_offset xs = (\<Sum>x\<leftarrow>xs. sint x) sdiv int (length xs)"

definition spec_axis_quiet :: "('s, 'f, 'z) env \<Rightarrow> int16_t list \<Rightarrow> bool" where
  "spec_axis_quiet e xs \<longleftrightarrow>
     \<not> fgt (fp e) (standard_deviation (lib e) (map (\<lambda>x. f_of_rat (fp e) (of_int (sint x))) xs))
            (f_of_rat (fp e) 50)"

definition spec_quiet :: "('s, 'f, 'z) env \<Rightarrow> (int16_t \<times> int16_t \<times> int16_t) list \<Rightarrow> bool" where
  "spec_quiet e ss \<longleftrightarrow>
     spec_axis_quiet e (map fst ss) \<and> spec_axis_quiet e (map (fst \<circ> snd) ss) \<and>
     spec_axis_quiet e (map (snd \<circ> snd) ss)"

definition spec_within_bounds :: "int list \<Rightarrow> bool" where
  "spec_within_bounds offsets \<longleftrightarrow>
     \<bar>offsets ! 0\<bar> \<le> 500 \<and> \<bar>offsets ! 1\<bar> \<le> 500 \<and> \<bar>offsets ! 2\<bar> \<le> 500"

subsection \<open>A bench instance\<close>

text \<open>
  An environment to run the model on: the register map of the MPU-9250, a 20-byte firmware
  image, rational numbers for the floating point, and a device that acknowledges every
  write, reports a fixed FIFO count on a word read and hands out the bytes of a queue, front
  first, on every block read, whatever the register; a block read past the end of the queue
  delivers what is left of it.
\<close>

definition bench_bus :: "(ushort \<times> byte list) i2c_bus" where
  "bench_bus =
     \<lparr>bus_write = (\<lambda>s reg bs. (0, s)),
      bus_read = (\<lambda>s reg n. ((int n, take n (snd s)), (fst s, drop n (snd s)))),
      bus_read_word = (\<lambda>s reg. ((0, fst s), s))\<rparr>"

definition bench_regs :: mpu_regs where
  "bench_regs =
     \<lparr>INT_ENABLE = 0x38, FIFO_EN = 0x23, USER_CTRL = 0x6A, FIFO_COUNTH = 0x72, FIFO_R_W = 0x74,
      GYRO_CONFIG = 0x1B, ACCEL_CONFIG = 0x1C, MPU6500_BANK_SEL = 0x6D, MPU6500_MEM_R_W = 0x6F,
      MPU6500_PRGM_START_H = 0x70\<rparr>"

definition bench_defs :: "rat mpu_defs" where
  "bench_defs =
     \<lparr>BIT_FIFO_RST = 0x04, BIT_DMP_RST = 0x08, BIT_DMP_EN = 0x80, BIT_FIFO_EN = 0x40,
      I2C_MST_EN = 0x20, FIFO_SLV0_EN = 0x01, BIT_DMP_INT_EN = 0x02,
      FIFO_GYRO_X_EN = 0x40, FIFO_GYRO_Y_EN = 0x20, FIFO_GYRO_Z_EN = 0x10,
      GYRO_FSR_CFG_250 = 0x00, GYRO_FSR_CFG_500 = 0x08, GYRO_FSR_CFG_1000 = 0x10,
      GYRO_FSR_CFG_2000 = 0x18, FCHOICE_B_DLPF_EN = 0x00,
      ACCEL_FSR_CFG_2G = 0x00, ACCEL_FSR_CFG_4G = 0x08, ACCEL_FSR_CFG_8G = 0x10,
      ACCEL_FSR_CFG_16G = 0x18, MAX_FIFO_BUFFER = 128, MAG_RAW_TO_uT = 4912 / 32760\<rparr>"

definition bench_dmp :: dmp_defs where
  "bench_dmp =
     \<lparr>MPU6500_BANK_SIZE = 256, DMP_LOAD_CHUNK = 16,
      dmp_firmware = [1, 2, 3, 4, 5, 6, 7, 8, 9, 10, 11, 12, 13, 14, 15, 16, 17, 18, 19, 20],
      dmp_start_addr = 0x0400, DMP_MAX_RATE = 200, D_0_22 = 534, CFG_6 = 2753,
      DINAFE = 0xfe, DINAF2 = 0xf2, DINAAB = 0xab, DINAAA = 0xaa, DINAF1 = 0xf1, DINADF = 0xdf\<rparr>"

definition bench_fp :: "rat fpu" where
  "bench_fp =
     \<lparr>f_of_rat = (\<lambda>q. q), fmul = (\<lambda>a b. a * b), fdiv = (\<lambda>a b. a / b), fsub = (\<lambda>a b. a - b),
      feq = (\<lambda>a b. a = b), fgt = (\<lambda>a b. a > b)\<rparr>"
text \<open>
  The standard deviation of the bench: that of the whole data set, rounded down to a whole
  number; 0 for the empty set.
\<close>

primrec root_below :: "nat \<Rightarrow> nat \<Rightarrow> nat" where
  "root_below n 0 = 0"
| "root_below n (Suc k) = (if Suc k * Suc k \<le> n then Suc k else root_below n k)"

definition bench_standard_deviation :: "rat list \<Rightarrow> rat" where
  "bench_standard_deviation xs =
     (if xs = [] then 0
      else let mean = sum_list xs / of_nat (length xs);
               variance = (\<Sum>x\<leftarrow>xs. (x - mean) * (x - mean)) / of_nat (length xs)
           in of_nat (root_below (nat \<lfloor>variance\<rfloor>) (nat \<lfloor>variance\<rfloor>)))"

definition bench_lib :: "(rat, unit) mathlib" where
  "bench_lib =
     \<lparr>normalizeQuaternion = (\<lambda>q. q), quaternionToTaitBryan = (\<lambda>q. take 3 q),
      fusion_math = (\<lambda>z tb m. (z, None)), standard_deviation = bench_standard_deviation\<rparr>"

definition bench_env :: "(ushort \<times> byte list, rat, unit) env" where
  "bench_env =
     \<lparr>bus = bench_bus, regs = bench_regs, defs = bench_defs, dmp = bench_dmp, fp = bench_fp,
      lib = bench_lib\<rparr>"

definition bench_data :: "rat imu_data" where
  "bench_data =
     \<lparr>accel = [0, 0, 0], gyro = [0, 0, 0], mag = [1, 2, 3], temp = 0, raw_gyro = [0, 0, 0],
      raw_accel = [0, 0, 0], accel_to_ms2 = 1, gyro_to_degs = 1, dmp_quat = [1, 0, 0, 0],
      dmp_TaitBryan = [0, 0, 0], fused_quat = [1, 0, 0, 0], fused_TaitBryan = [0, 0, 0],
      compass_heading = 0, compass_heading_raw = 0\<rparr>"

definition bench_driver :: "ushort \<Rightarrow> byte list \<Rightarrow> (ushort \<times> byte list, rat, unit) driver" where
  "bench_driver fifo_count fifo =
     \<lparr>hw = \<lparr>dev = (fifo_count, fifo), wlog = []\<rparr>, enable_magnetometer = True, dmp_en = True,
      packet_len = 35, mag_factory_adjust = [1, 1, 1], mag_offsets = [0, 0, 0],
      mag_scales = [1, 1, 1], first_run = True, fusion_state = (), data = bench_data\<rparr>"


definition bench_fifo_28 :: "byte list" where
  "bench_fifo_28 = [0x40] @ replicate 16 0 @ [9] @ replicate 10 0"

definition bench_queue :: "byte list" where
  "bench_queue =
     [0, 12, 0, 100, 0, 0, 0, 0, 0xFF, 0x9C, 0, 0, 0, 0,
      0, 12, 0, 12, 0, 0, 0, 0, 0, 14, 0, 0, 0, 0]"

definition bench_short_queue :: "byte list" where
  "bench_short_queue = [0, 12, 0, 200, 0, 0, 0, 0, 0, 6, 0, 0, 0, 0]"

definition bench_cal_writes :: "(byte \<times> byte list) list" where
  "bench_cal_writes = [(0x6A, [0x40]), (0x23, [0x70]), (0x23, [0])]"


section \<open>Properties\<close>

subsection \<open>Bytes and 32-bit fields\<close>

lemma or_below_shift:
  fixes a b :: int
  assumes "0 \<le> b" and "b < 2 ^ n"
  shows "push_bit n a OR b = a * 2 ^ n + b"
proof -
  from assms have tb: "take_bit n b = b"
    by (simp add: take_bit_int_eq_self)
  have "push_bit n a OR b = concat_bit n b a"
    by (simp add: concat_bit_def tb or.commute)
  also have "\<dots> = b + push_bit n a"
    by (simp add: concat_bit_eq tb)
  finally show ?thesis
    by (simp add: push_bit_eq_mult)
qed

lemma uint_byte_bounds: "0 \<le> uint (b::byte) \<and> uint b < 256"
  using uint_bounded [of b] by simp

lemma uint_shift_byte:
  assumes n: "n \<le> 24"
  shows "uint (push_bit n (ucast (b::byte) :: long)) = uint b * 2 ^ n"
proof -
  have ub: "0 \<le> uint b" "uint b < 2 ^ 8"
    using uint_byte_bounds [of b] by simp_all
  have "uint b * 2 ^ n < 2 ^ 8 * 2 ^ n"
    using ub by simp
  also have "\<dots> = (2::int) ^ (8 + n)"
    by (simp add: power_add)
  also have "\<dots> \<le> 2 ^ 32"
    using n by (intro power_increasing) simp_all
  finally have lt: "uint b * 2 ^ n < 2 ^ 32" .
  have uc: "uint (ucast b :: long) = uint b"
    by (simp add: unsigned_ucast_eq take_bit_int_eq_self ub(1) order_less_trans [OF ub(2)])
  have "uint (push_bit n (ucast b :: long)) =
      take_bit LENGTH(32) (push_bit n (uint (ucast b :: long)))"
    by (rule unsigned_push_bit_eq)
  also have "\<dots> = take_bit 32 (uint b * 2 ^ n)"
    unfolding uc by (simp add: push_bit_eq_mult)
  also have "\<dots> = uint b * 2 ^ n"
    using lt ub by (simp add: take_bit_int_eq_self)
  finally show ?thesis .
qed

lemma uint_parse_long:
  "uint (parse_long raw k) =
     uint (raw ! k) * 2 ^ 24 + uint (raw ! (k + 1)) * 2 ^ 16 +
     uint (raw ! (k + 2)) * 2 ^ 8 + uint (raw ! (k + 3))"
proof -
  define b0 where "b0 = uint (raw ! k)"
  define b1 where "b1 = uint (raw ! (k + 1))"
  define b2 where "b2 = uint (raw ! (k + 2))"
  define b3 where "b3 = uint (raw ! (k + 3))"
  have bs: "0 \<le> b0" "b0 < 256" "0 \<le> b1" "b1 < 256" "0 \<le> b2" "b2 < 256" "0 \<le> b3" "b3 < 256"
    using uint_byte_bounds by (simp_all add: b0_def b1_def b2_def b3_def)
  have u3: "uint (ucast (raw ! (k + 3)) :: long) = b3"
    using uint_shift_byte [of 0 "raw ! (k + 3)"] by (simp add: b3_def)
  have e: "uint (parse_long raw k) = ((b0 * 2 ^ 24 OR b1 * 2 ^ 16) OR b2 * 2 ^ 8) OR b3"
    unfolding parse_long_def uint_or
    by (simp only: uint_shift_byte u3 b0_def b1_def b2_def b3_def or.assoc)
  have s1: "b0 * 2 ^ 24 OR b1 * 2 ^ 16 = b0 * 2 ^ 24 + b1 * 2 ^ 16"
    using or_below_shift [of "b1 * 2 ^ 16" 24 b0] bs by (simp add: push_bit_eq_mult)
  have s2: "(b0 * 2 ^ 24 + b1 * 2 ^ 16) OR b2 * 2 ^ 8 = b0 * 2 ^ 24 + b1 * 2 ^ 16 + b2 * 2 ^ 8"
    using or_below_shift [of "b2 * 2 ^ 8" 16 "b0 * 2 ^ 8 + b1"] bs
    by (simp add: push_bit_eq_mult algebra_simps)
  have s3: "(b0 * 2 ^ 24 + b1 * 2 ^ 16 + b2 * 2 ^ 8) OR b3 =
      b0 * 2 ^ 24 + b1 * 2 ^ 16 + b2 * 2 ^ 8 + b3"
    using or_below_shift [of b3 8 "b0 * 2 ^ 16 + b1 * 2 ^ 8 + b2"] bs
    by (simp add: push_bit_eq_mult algebra_simps)
  show ?thesis
    unfolding e s1 s2 s3 by (simp add: b0_def b1_def b2_def b3_def)
qed

lemma sint_long_cases:
  "sint (w::long) = (if uint w < 2 ^ 31 then uint w else uint w - 2 ^ 32)"
proof -
  have b: "0 \<le> uint w" "uint w < 2 ^ 32"
    using uint_bounded [of w] by simp_all
  have s: "sint w = (uint w + 2 ^ 31) mod 2 ^ 32 - 2 ^ 31"
    by (simp add: sint_uint signed_take_bit_eq_take_bit_shift take_bit_eq_mod)
  show ?thesis
  proof (cases "uint w < 2 ^ 31")
    case True
    then have "(uint w + 2 ^ 31) mod 2 ^ 32 = uint w + 2 ^ 31"
      using b by simp
    then show ?thesis
      using True s by simp
  next
    case False
    then have "(uint w + 2 ^ 31) mod 2 ^ 32 = uint w + 2 ^ 31 - 2 ^ 32"
      using b mod_pos_geq [of "2 ^ 32" "uint w + 2 ^ 31"] by simp
    then show ?thesis
      using False s by simp
  qed
qed

lemma sint_parse_long: "sint (parse_long raw k) = spec_quat_field raw k"
  by (simp only: sint_long_cases uint_parse_long spec_quat_field_def Let_def)

subsection \<open>The reduced fields and the wrapped sum of squares\<close>

lemma sint_quat_q14:
  "sint (signed_drop_bit 16 (parse_long raw k)) = spec_quat_q14 raw k"
  by (simp add: sint_signed_drop_bit_eq sint_parse_long spec_quat_q14_def drop_bit_eq_div)

lemma spec_quat_q14_bounds:
  "- (2 ^ 15) \<le> spec_quat_q14 raw k \<and> spec_quat_q14 raw k < 2 ^ 15"
proof -
  have "- (2 ^ 31) \<le> sint (parse_long raw k)" "sint (parse_long raw k) < 2 ^ 31"
    using sint_ge [of "parse_long raw k"] sint_lt [of "parse_long raw k"] by simp_all
  then have "(- (2 ^ 31)) div 2 ^ 16 \<le> spec_quat_field raw k div 2 ^ 16"
    "spec_quat_field raw k div 2 ^ 16 \<le> (2 ^ 31 - 1) div 2 ^ 16"
    unfolding sint_parse_long by (simp_all add: zdiv_mono1)
  then show ?thesis
    unfolding spec_quat_q14_def by simp
qed

lemma square_q14_bound:
  fixes a :: int
  assumes "- (2 ^ 15) \<le> a" and "a < 2 ^ 15"
  shows "0 \<le> a * a \<and> a * a \<le> 2 ^ 30"
proof -
  from assms have "\<bar>a\<bar> \<le> 2 ^ 15"
    by simp
  then have "\<bar>a\<bar> * \<bar>a\<bar> \<le> 2 ^ 15 * 2 ^ 15"
    by (intro mult_mono) simp_all
  then show ?thesis
    by simp
qed

lemma spec_quat_mag_sq_bounds:
  "0 \<le> spec_quat_mag_sq raw i \<and> spec_quat_mag_sq raw i \<le> 2 ^ 32"
  using square_q14_bound [of "spec_quat_q14 raw i"]
    square_q14_bound [of "spec_quat_q14 raw (i + 4)"]
    square_q14_bound [of "spec_quat_q14 raw (i + 8)"]
    square_q14_bound [of "spec_quat_q14 raw (i + 12)"]
    spec_quat_q14_bounds [of raw i] spec_quat_q14_bounds [of raw "i + 4"]
    spec_quat_q14_bounds [of raw "i + 8"] spec_quat_q14_bounds [of raw "i + 12"]
  by (simp add: spec_quat_mag_sq_def power2_eq_square)

lemma quat_q14_of_int:
  "signed_drop_bit 16 (parse_long raw k) = word_of_int (spec_quat_q14 raw k)"
proof -
  have "signed_drop_bit 16 (parse_long raw k) =
      word_of_int (sint (signed_drop_bit 16 (parse_long raw k)))"
    by (simp only: of_int_sint scast_id)
  then show ?thesis
    by (simp only: sint_quat_q14)
qed

lemma sint_wrapped_mag_sq:
  fixes m :: long
  assumes m: "m = word_of_int (spec_quat_mag_sq raw i)"
  shows "sint m =
     (if spec_quat_mag_sq raw i < 2 ^ 31 then spec_quat_mag_sq raw i
      else if spec_quat_mag_sq raw i < 2 ^ 32 then spec_quat_mag_sq raw i - 2 ^ 32 else 0)"
proof -
  define S where "S = spec_quat_mag_sq raw i"
  have b: "0 \<le> S" "S \<le> 2 ^ 32"
    using spec_quat_mag_sq_bounds [of raw i] by (simp_all add: S_def)
  have u: "uint m = S mod 2 ^ 32"
    by (simp add: m uint_word_of_int S_def)
  consider "S < 2 ^ 31" | "2 ^ 31 \<le> S" "S < 2 ^ 32" | "S = 2 ^ 32"
    using b by linarith
  then show ?thesis
  proof cases
    case 1
    then have "S mod 2 ^ 32 = S"
      using b by simp
    then show ?thesis
      using 1 by (simp add: sint_long_cases u flip: S_def)
  next
    case 2
    then have "S mod 2 ^ 32 = S"
      using b by simp
    then show ?thesis
      using 2 by (simp add: sint_long_cases u flip: S_def)
  next
    case 3
    then show ?thesis
      by (simp add: sint_long_cases u flip: S_def)
  qed
qed

lemma check_quaternion_validity_sint:
  "check_quaternion_validity raw i =
     (if sint (word_of_int (spec_quat_mag_sq raw i) :: long) < sint QUAT_MAG_SQ_MIN \<or>
         sint QUAT_MAG_SQ_MAX < sint (word_of_int (spec_quat_mag_sq raw i) :: long)
      then 0 else 1)"
  by (simp add: check_quaternion_validity_def Let_def quat_q14_of_int spec_quat_mag_sq_def
      power2_eq_square word_sless_alt)

lemma sint_QUAT_MAG_SQ_MIN: "sint QUAT_MAG_SQ_MIN = 2 ^ 28 - 2 ^ 16"
  by (simp add: QUAT_MAG_SQ_MIN_def QUAT_MAG_SQ_NORMALIZED_def QUAT_ERROR_THRESH_def)

lemma sint_QUAT_MAG_SQ_MAX: "sint QUAT_MAG_SQ_MAX = 2 ^ 28 + 2 ^ 16"
  by (simp add: QUAT_MAG_SQ_MAX_def QUAT_MAG_SQ_NORMALIZED_def QUAT_ERROR_THRESH_def)

lemma check_quaternion_validity_spec:
  "check_quaternion_validity raw i = (if spec_quat_valid raw i then 1 else 0)"
  unfolding check_quaternion_validity_sint sint_QUAT_MAG_SQ_MIN sint_QUAT_MAG_SQ_MAX
    sint_wrapped_mag_sq [OF refl] spec_quat_valid_def
  by (simp split: if_splits)

text \<open>
  Claim C2. For every 16-byte candidate sub-record (bytes \<open>i\<close> to \<open>i + 15\<close> of the
  buffer), \<open>check_quaternion_validity\<close> returns 1 exactly when the sum of the squares of
  the four signed 32-bit big-endian fields, each shifted right by 16 bits, lies in the
  inclusive band from \<open>2^28 - 2^16\<close> to \<open>2^28 + 2^16\<close>, and returns 0 otherwise. The
  32-bit arithmetic of the source cannot wrap a sum from outside the band into it.
\<close>

theorem check_quaternion_validity_band:
  assumes "i + 16 \<le> length raw"
  shows "check_quaternion_validity raw i =
     (if 2 ^ 28 - 2 ^ 16 \<le> spec_quat_mag_sq raw i \<and> spec_quat_mag_sq raw i \<le> 2 ^ 28 + 2 ^ 16
      then 1 else 0)"
  using check_quaternion_validity_spec [of raw i] by (simp add: spec_quat_valid_def)

theorem check_quaternion_validity_band_witness:
  "(0::nat) + 16 \<le> length [0x40, 0, 0, 0, 0, 0, 0, 0, 0, 0, 0, 0, 0, 0, 0, 0 :: byte] \<and>
   spec_quat_mag_sq [0x40, 0, 0, 0, 0, 0, 0, 0, 0, 0, 0, 0, 0, 0, 0, 0] 0 = 2 ^ 28 \<and>
   check_quaternion_validity [0x40, 0, 0, 0, 0, 0, 0, 0, 0, 0, 0, 0, 0, 0, 0, 0] 0 = 1"
  using check_quaternion_validity_band
    [of 0 "[0x40, 0, 0, 0, 0, 0, 0, 0, 0, 0, 0, 0, 0, 0, 0, 0]"]
  by (simp add: spec_quat_mag_sq_def spec_quat_q14_def spec_quat_field_def)

subsection \<open>Full-scale ranges\<close>

text \<open>
  Claim C4. For each of the four accelerometer full-scale values \<open>set_accel_fsr\<close> stores
  the conversion factor \<open>9.807 * range / 32768\<close> with range 2, 4, 8 and 16, and for each of
  the four gyro full-scale values \<open>set_gyro_fsr\<close> stores \<open>range / 32768\<close> with range 250,
  500, 1000 and 2000. Any other value is answered with \<open>-1\<close>, the sample record and the
  hardware (its write log included) being what they were.
\<close>

theorem fsr_conversion_factors:
  "gyro_to_degs (fst (snd (set_gyro_fsr e G_FSR_250DPS d h))) = spec_gyro_to_degs (fp e) 250 \<and>
   gyro_to_degs (fst (snd (set_gyro_fsr e G_FSR_500DPS d h))) = spec_gyro_to_degs (fp e) 500 \<and>
   gyro_to_degs (fst (snd (set_gyro_fsr e G_FSR_1000DPS d h))) = spec_gyro_to_degs (fp e) 1000 \<and>
   gyro_to_degs (fst (snd (set_gyro_fsr e G_FSR_2000DPS d h))) = spec_gyro_to_degs (fp e) 2000 \<and>
   set_gyro_fsr e G_FSR_OTHER d h = (- 1, d, h) \<and>
   accel_to_ms2 (fst (snd (set_accel_fsr e A_FSR_2G d h))) = spec_accel_to_ms2 (fp e) 2 \<and>
   accel_to_ms2 (fst (snd (set_accel_fsr e A_FSR_4G d h))) = spec_accel_to_ms2 (fp e) 4 \<and>
   accel_to_ms2 (fst (snd (set_accel_fsr e A_FSR_8G d h))) = spec_accel_to_ms2 (fp e) 8 \<and>
   accel_to_ms2 (fst (snd (set_accel_fsr e A_FSR_16G d h))) = spec_accel_to_ms2 (fp e) 16 \<and>
   set_accel_fsr e A_FSR_OTHER d h = (- 1, d, h)"
  by (simp add: set_gyro_fsr_def set_accel_fsr_def spec_gyro_to_degs_def spec_accel_to_ms2_def
      Let_def split: prod.splits)

subsection \<open>The bench device\<close>

lemma bench_constants:
  "MPU6500_BANK_SIZE (dmp bench_env) = 256" "MPU6500_BANK_SEL (regs bench_env) = 0x6D"
  "MPU6500_MEM_R_W (regs bench_env) = 0x6F" "DMP_MAX_RATE (dmp bench_env) = 200"
  "D_0_22 (dmp bench_env) = 534" "CFG_6 (dmp bench_env) = 2753"
  "regs_end (dmp bench_env) = [254, 242, 171, 196, 170, 241, 223, 223, 187, 175, 223, 223]"
  by (simp_all add: regs_end_def bench_env_def bench_dmp_def bench_regs_def)

lemma bench_count_read:
  "i2c_read_word (bus bench_env) (FIFO_COUNTH (regs bench_env)) (hw (bench_driver c bs)) =
     ((0, c), hw (bench_driver c bs))"
  by (simp add: i2c_read_word_def bench_env_def bench_bus_def bench_driver_def)

lemma bench_block_read:
  "length bs = n \<Longrightarrow>
   fifo_block_read bench_env n (hw (bench_driver c bs)) = ((int n, bs), hw (bench_driver c []))"
  by (simp add: fifo_block_read_def i2c_read_bytes_def bench_env_def bench_bus_def bench_driver_def)

lemma bench_read_bytes:
  "i2c_read_bytes (bus bench_env) reg n \<lparr>dev = (c, bs), wlog = w\<rparr> =
     ((int n, take n bs @ replicate (n - length bs) 0), \<lparr>dev = (c, drop n bs), wlog = w\<rparr>)"
  by (simp add: i2c_read_bytes_def bench_env_def bench_bus_def)

lemma bench_write_bytes:
  "i2c_write_bytes (bus bench_env) reg bs \<lparr>dev = d, wlog = w\<rparr> =
     (0, \<lparr>dev = d, wlog = w @ [(reg, bs)]\<rparr>)"
  by (simp add: i2c_write_bytes_def bench_env_def bench_bus_def)

lemma bench_write_byte:
  "i2c_write_byte (bus bench_env) reg v \<lparr>dev = d, wlog = w\<rparr> =
     (0, \<lparr>dev = d, wlog = w @ [(reg, [v])]\<rparr>)"
  by (simp add: i2c_write_byte_def i2c_write_bytes_def bench_env_def bench_bus_def)

lemma bench_read_into:
  "i2c_read_bytes_into (bus bench_env) reg n buf \<lparr>dev = (c, q), wlog = w\<rparr> =
     ((int n, take n q @ drop (min (length q) n) buf), \<lparr>dev = (c, drop n q), wlog = w\<rparr>)"
  by (simp add: i2c_read_bytes_into_def bench_env_def bench_bus_def Let_def)


lemma bench_driver_fields:
  "dmp_en (bench_driver c bs)" "packet_len (bench_driver c bs) = 35"
  "enable_magnetometer (bench_driver c bs)" "data (bench_driver c bs) = bench_data"
  "wlog (hw (bench_driver c bs)) = []"
  by (simp_all add: bench_driver_def)

lemma bench_driver_mag:
  "mag_factory_adjust (bench_driver c bs) = [1, 1, 1]" "mag_offsets (bench_driver c bs) = [0, 0, 0]"
  "mag_scales (bench_driver c bs) = [1, 1, 1]"
  by (simp_all add: bench_driver_def)


lemma bench_mag_axis:
  "spec_mag_axis bench_env adc adjust offset scale =
     (of_int adc * adjust * (4912 / 32760) - offset) * (if scale = 0 then 1 else scale)"
  by (simp add: spec_mag_axis_def unset_scale_def bench_env_def bench_defs_def bench_fp_def)

lemma bench_unset_scale: "unset_scale (fp bench_env) s = (if s = 0 then 1 else s)"
  by (simp add: unset_scale_def bench_env_def bench_fp_def)

lemma read_samples_two: "read_samples e 2 buf h = read_samples e (Suc (Suc 0)) buf h"
  by (simp only: numeral_2_eq_2)


lemma bench_one_packet_quaternion:
  "check_quaternion_validity (fifo_buffer bench_env (replicate 7 0 @ [0x40] @ replicate 27 0)) 7 = 1"
  by (simp add: fifo_buffer_def bench_env_def bench_defs_def check_quaternion_validity_def
      parse_long_def nth_append QUAT_MAG_SQ_MIN_def QUAT_MAG_SQ_MAX_def QUAT_MAG_SQ_NORMALIZED_def
      QUAT_ERROR_THRESH_def word_sless_alt)

lemma bench_zero_mag:
  "mag_adc (fifo_buffer bench_env (replicate 7 0 @ [0x40] @ replicate 27 0)) 0 = [0, 0, 0]"
  by (simp add: mag_adc_def parse_int16_le_def fifo_buffer_def nth_append)

subsection \<open>Classification of the FIFO byte count\<close>




lemma fifo_classify_table:
  "fifo_classify 0 = Empty_Fifo"
  "fifo_classify 28 = Read_Fifo 0 False True"
  "fifo_classify 35 = Read_Fifo 0 True True"
  "fifo_classify 56 = Read_Fifo 28 False True"
  "fifo_classify 70 = Read_Fifo 35 True True"
  "fifo_classify 42 = Read_Fifo 7 False True"
  "fifo_classify 63 = Read_Fifo 28 False True"
  "fifo_classify 77 = Read_Fifo 42 False True"
  "fifo_classify 7 = Read_Fifo 0 True False"
  "fifo_classify 14 = Read_Fifo 7 True False"
  "fifo_classify 21 = Read_Fifo 14 True False"
  by (simp_all add: fifo_classify_def FIFO_LEN_NO_MAG_def FIFO_LEN_MAG_def)

lemma fifo_classify_spec:
  "fifo_classify c =
     (if c = 0 then Empty_Fifo
      else case spec_fifo_table c of
             None \<Rightarrow> Weird_Length
           | Some (i, m, d) \<Rightarrow> Read_Fifo i m d)"
  by (simp add: fifo_classify_def spec_fifo_table_def FIFO_LEN_NO_MAG_def FIFO_LEN_MAG_def
      word_unat_eq_iff)


lemma cycle_after_count:
  assumes "dmp_en st" and "packet_len st = 28 \<or> packet_len st = 35"
    and "i2c_read_word (bus e) (FIFO_COUNTH (regs e)) (hw st) = ((r, c), h)" and "0 \<le> r"
  shows "read_dmp_fifo_cycle e st =
     (case fifo_classify c of
        Empty_Fifo \<Rightarrow> (- 1, False, st\<lparr>hw := h\<rparr>)
      | Read_Fifo i m d \<Rightarrow> read_fifo e c i m d (st\<lparr>hw := h\<rparr>)
      | Weird_Length \<Rightarrow>
          (- 1, False, st\<lparr>hw := snd (mpu_reset_fifo e (enable_magnetometer st) (dmp_en st) h)\<rparr>))"
  using assms
  by (auto simp add: read_dmp_fifo_cycle_def FIFO_LEN_NO_MAG_def FIFO_LEN_MAG_def
      split: fifo_class.splits)

subsection \<open>What a cycle stores\<close>

lemma signed_parse_long: "(signed (parse_long raw k) :: rat) = of_int (spec_quat_field raw k)"
proof -
  have "(signed (parse_long raw k) :: rat) = of_int (sint (parse_long raw k))"
    by (simp only: of_int_sint)
  then show ?thesis
    by (simp only: sint_parse_long)
qed

lemma store_dmp_parsed: "dmp_parsed_at e raw j d (store_dmp e raw j d)"
  by (simp add: dmp_parsed_at_def store_dmp_def Let_def signed_parse_long add.commute)

lemma dmp_fields_store_mag:
  "dmp_quat (data (store_mag e raw i st)) = dmp_quat (data st)"
  "dmp_TaitBryan (data (store_mag e raw i st)) = dmp_TaitBryan (data st)"
  "raw_accel (data (store_mag e raw i st)) = raw_accel (data st)"
  "accel (data (store_mag e raw i st)) = accel (data st)"
  "raw_gyro (data (store_mag e raw i st)) = raw_gyro (data st)"
  "gyro (data (store_mag e raw i st)) = gyro (data st)"
  by (simp_all add: store_mag_def Let_def)

lemma dmp_fields_data_fusion:
  "dmp_quat (data (data_fusion e st)) = dmp_quat (data st)"
  "dmp_TaitBryan (data (data_fusion e st)) = dmp_TaitBryan (data st)"
  "raw_accel (data (data_fusion e st)) = raw_accel (data st)"
  "accel (data (data_fusion e st)) = accel (data st)"
  "raw_gyro (data (data_fusion e st)) = raw_gyro (data st)"
  "gyro (data (data_fusion e st)) = gyro (data st)"
  by (simp_all add: data_fusion_def split: prod.splits option.splits)

lemma dmp_fields_finish_cycle:
  "dmp_quat (data (snd (snd (finish_cycle e raw i m new st)))) = dmp_quat (data st)"
  "dmp_TaitBryan (data (snd (snd (finish_cycle e raw i m new st)))) = dmp_TaitBryan (data st)"
  "raw_accel (data (snd (snd (finish_cycle e raw i m new st)))) = raw_accel (data st)"
  "accel (data (snd (snd (finish_cycle e raw i m new st)))) = accel (data st)"
  "raw_gyro (data (snd (snd (finish_cycle e raw i m new st)))) = raw_gyro (data st)"
  "gyro (data (snd (snd (finish_cycle e raw i m new st)))) = gyro (data st)"
  by (simp_all add: finish_cycle_def Let_def dmp_fields_store_mag dmp_fields_data_fusion)

lemma mag_data_fusion: "mag (data (data_fusion e st)) = mag (data st)"
  by (simp add: data_fusion_def split: prod.splits option.splits)

lemma mag_scales_data_fusion: "mag_scales (data_fusion e st) = mag_scales st"
  by (simp add: data_fusion_def split: prod.splits option.splits)

lemma store_mag_decoded: "mag_decoded_at e raw i st (store_mag e raw i st)"
  by (simp add: mag_decoded_at_def store_mag_def mag_adc_def spec_mag_axis_def Let_def)

lemma finish_cycle_ret: "fst (finish_cycle e raw i m new st) = (if new then 0 else - 1)"
  by (simp add: finish_cycle_def Let_def)

lemma finish_cycle_mag:
  "mag_decoded_at e raw i st (snd (snd (finish_cycle e raw i True new st)))"
  using store_mag_decoded [of e raw i st]
  by (simp add: finish_cycle_def Let_def mag_decoded_at_def mag_data_fusion mag_scales_data_fusion)

lemma finish_cycle_no_mag:
  "mag (data (snd (snd (finish_cycle e raw i False new st)))) = mag (data st)"
  "mag_scales (snd (snd (finish_cycle e raw i False new st))) = mag_scales st"
  by (simp_all add: finish_cycle_def Let_def mag_data_fusion mag_scales_data_fusion)

lemma finish_cycle_parsed:
  "dmp_parsed_at e raw j d0 (data (snd (snd (finish_cycle e raw i m new s)))) =
   dmp_parsed_at e raw j d0 (data s)"
  by (simp add: dmp_parsed_at_def dmp_fields_finish_cycle)

lemma finish_cycle_kept:
  "dmp_kept d0 (data (snd (snd (finish_cycle e raw i m new s)))) = dmp_kept d0 (data s)"
  by (simp add: dmp_kept_def dmp_fields_finish_cycle)

lemma dmp_kept_refl: "dmp_kept d d"
  by (simp add: dmp_kept_def)

lemma finish_cycle_mag_from:
  assumes "mag (data s) = mag (data st)" and "mag_scales s = mag_scales st"
    and "mag_factory_adjust s = mag_factory_adjust st" and "mag_offsets s = mag_offsets st"
  shows "mag_decoded_at e raw i st (snd (snd (finish_cycle e raw i True new s)))"
  using finish_cycle_mag [where e = e and raw = raw and i = i and new = new and st = s] assms
  by (simp add: mag_decoded_at_def)

subsection \<open>The FIFO reset on the bus\<close>




subsection \<open>The outcome of a cycle\<close>

lemma read_dmp_fifo_outcome:
  assumes "dmp_en st" and "packet_len st = 28 \<or> packet_len st = 35"
    and "i2c_read_word (bus e) (FIFO_COUNTH (regs e)) (hw st) = ((r, c), h)" and "0 \<le> r"
    and "fifo_block_read e (unat c) h = ((ret, bs), h')"
  shows "read_dmp_fifo e st =
     (if c = 0 then (- 1, st\<lparr>hw := h\<rparr>)
      else case spec_fifo_table c of
        None \<Rightarrow> (- 1, st\<lparr>hw := snd (mpu_reset_fifo e (enable_magnetometer st) True h)\<rparr>)
      | Some (i, m, d) \<Rightarrow>
          if ret \<noteq> uint c then (- 1, st\<lparr>hw := h'\<rparr>)
          else if d then
            (if enable_magnetometer st \<and> check_quaternion_validity (fifo_buffer e bs) (i + 7) \<noteq> 0
             then (0, snd (snd (finish_cycle e (fifo_buffer e bs) i m True
                     (st\<lparr>hw := h', data := store_dmp e (fifo_buffer e bs) (i + 7) (data st)\<rparr>))))
             else if check_quaternion_validity (fifo_buffer e bs) i \<noteq> 0
             then (0, snd (snd (finish_cycle e (fifo_buffer e bs) (i + 28) m True
                     (st\<lparr>hw := h', data := store_dmp e (fifo_buffer e bs) i (data st)\<rparr>))))
             else (- 1, st\<lparr>hw := snd (mpu_reset_fifo e (enable_magnetometer st) True h')\<rparr>))
          else (- 1, snd (snd (finish_cycle e (fifo_buffer e bs) i m False (st\<lparr>hw := h'\<rparr>)))))"
proof -
  have c: "read_dmp_fifo_cycle e st =
     (case fifo_classify c of
        Empty_Fifo \<Rightarrow> (- 1, False, st\<lparr>hw := h\<rparr>)
      | Read_Fifo i m d \<Rightarrow> read_fifo e c i m d (st\<lparr>hw := h\<rparr>)
      | Weird_Length \<Rightarrow>
          (- 1, False, st\<lparr>hw := snd (mpu_reset_fifo e (enable_magnetometer st) (dmp_en st) h)\<rparr>))"
    by (rule cycle_after_count [OF assms(1-4)])
  have f: "read_fifo e c i m d (st\<lparr>hw := h\<rparr>) =
      (if ret \<noteq> uint c then (- 1, False, st\<lparr>hw := h'\<rparr>)
       else if d then
         (if enable_magnetometer st \<and> check_quaternion_validity (fifo_buffer e bs) (i + 7) \<noteq> 0
          then finish_cycle e (fifo_buffer e bs) i m True
                 (st\<lparr>hw := h', data := store_dmp e (fifo_buffer e bs) (i + 7) (data st)\<rparr>)
          else if check_quaternion_validity (fifo_buffer e bs) i \<noteq> 0
          then finish_cycle e (fifo_buffer e bs) (i + 28) m True
                 (st\<lparr>hw := h', data := store_dmp e (fifo_buffer e bs) i (data st)\<rparr>)
          else (- 1, False, st\<lparr>hw := snd (mpu_reset_fifo e (enable_magnetometer st) True h')\<rparr>))
       else finish_cycle e (fifo_buffer e bs) i m False (st\<lparr>hw := h'\<rparr>))" for i m d
    using assms(1,5)
    by (simp add: read_fifo_def locate_quaternion_def FIFO_LEN_NO_MAG_def Let_def)
  have r: "fst (finish_cycle e raw i m new s) = (if new then 0 else - 1)" for raw i m new s
    by (rule finish_cycle_ret)
  show ?thesis
  proof (cases "c = 0")
    case True
    then show ?thesis
      by (simp add: read_dmp_fifo_def c fifo_classify_spec)
  next
    case False
    show ?thesis
    proof (cases "spec_fifo_table c")
      case None
      then show ?thesis
        using False assms(1) by (simp add: read_dmp_fifo_def c fifo_classify_spec)
    next
      case (Some t)
      obtain i m d where t: "t = (i, m, d)"
        by (cases t)
      have "read_dmp_fifo_cycle e st = read_fifo e c i m d (st\<lparr>hw := h\<rparr>)"
        using False Some t by (simp add: c fifo_classify_spec)
      then show ?thesis
        using False Some t by (simp add: read_dmp_fifo_def f split_beta r)
    qed
  qed
qed

lemma outcome_parsed:
  "fst (0 :: int, snd (snd (finish_cycle e raw i' m True (st\<lparr>hw := h', data := store_dmp e raw j (data st)\<rparr>)))) = 0 \<and>
   dmp_parsed_at e raw j (data st)
     (data (snd (0 :: int, snd (snd (finish_cycle e raw i' m True
        (st\<lparr>hw := h', data := store_dmp e raw j (data st)\<rparr>)))))) \<and>
   (if m then mag_decoded_at e raw i' st
       (snd (0 :: int, snd (snd (finish_cycle e raw i' m True
          (st\<lparr>hw := h', data := store_dmp e raw j (data st)\<rparr>)))))
    else mag (data (snd (0 :: int, snd (snd (finish_cycle e raw i' m True
          (st\<lparr>hw := h', data := store_dmp e raw j (data st)\<rparr>)))))) = mag (data st))"
proof -
  have m: "mag (store_dmp e raw j (data st)) = mag (data st)"
    by (simp add: store_dmp_def Let_def)
  show ?thesis
    using finish_cycle_mag_from [where s = "st\<lparr>hw := h', data := store_dmp e raw j (data st)\<rparr>"
        and st = st and e = e and raw = raw and i = i' and new = True]
    by (simp add: finish_cycle_parsed store_dmp_parsed finish_cycle_no_mag m)
qed

lemma outcome_mag_only:
  "dmp_kept (data st) (data (snd (snd (finish_cycle e raw i m False (st\<lparr>hw := h'\<rparr>))))) \<and>
   mag_decoded_at e raw i st (snd (snd (finish_cycle e raw i True False (st\<lparr>hw := h'\<rparr>))))"
  using finish_cycle_mag_from [where s = "st\<lparr>hw := h'\<rparr>" and st = st and e = e and raw = raw
      and i = i and new = False]
  by (simp add: finish_cycle_kept dmp_kept_refl)









subsection \<open>Packet alignment errors\<close>



subsection \<open>The return code\<close>

lemma read_dmp_fifo_early:
  assumes "i2c_read_word (bus e) (FIFO_COUNTH (regs e)) (hw st) = ((r, c), h)"
    and "\<not> (dmp_en st \<and> (packet_len st = 28 \<or> packet_len st = 35) \<and> 0 \<le> r)"
  shows "fst (read_dmp_fifo e st) = - 1 \<and> data (snd (read_dmp_fifo e st)) = data st"
  using assms
  by (auto simp add: read_dmp_fifo_def read_dmp_fifo_cycle_def FIFO_LEN_NO_MAG_def
      FIFO_LEN_MAG_def)

text \<open>
  Claim C5. \<open>read_dmp_fifo\<close> returns 0 exactly when coprocessor data were parsed in the
  cycle: the driver is in DMP mode with a valid packet length, the byte count was read and
  is one of the counts with coprocessor data, its block was read in full, and the
  quaternion is valid at one of the two candidate offsets. When it returns 0 the coprocessor
  fields of the sample record (quaternion, angles, raw and scaled accelerometer and gyro
  values) hold what the FIFO bytes at that offset say; when it does not, it returns
  \<open>-1\<close> and these fields are what they were. In particular a cycle with a byte count of
  7, 14 or 21 whose block was read in full returns \<open>-1\<close> although the magnetometer
  record at offset count minus 7 was decoded and stored.
\<close>

theorem success_iff_new_dmp_data:
  assumes "i2c_read_word (bus e) (FIFO_COUNTH (regs e)) (hw st) = ((r, c), h)"
    and "fifo_block_read e (unat c) h = ((ret, bs), h')"
  shows
    "let raw = fifo_buffer e bs; rd = read_dmp_fifo e st
     in (fst rd = 0 \<longleftrightarrow>
           dmp_en st \<and> (packet_len st = 28 \<or> packet_len st = 35) \<and> 0 \<le> r \<and> ret = uint c \<and>
           (\<exists>i m. spec_fifo_table c = Some (i, m, True) \<and>
              (enable_magnetometer st \<and> check_quaternion_validity raw (i + 7) \<noteq> 0 \<or>
               check_quaternion_validity raw i \<noteq> 0))) \<and>
        (fst rd = 0 \<longrightarrow>
           (\<exists>i m. spec_fifo_table c = Some (i, m, True) \<and>
              dmp_parsed_at e raw
                (if enable_magnetometer st \<and> check_quaternion_validity raw (i + 7) \<noteq> 0
                 then i + 7 else i)
                (data st) (data (snd rd)))) \<and>
        (fst rd \<noteq> 0 \<longrightarrow> fst rd = - 1 \<and> dmp_kept (data st) (data (snd rd))) \<and>
        (dmp_en st \<and> (packet_len st = 28 \<or> packet_len st = 35) \<and> 0 \<le> r \<and>
         c \<in> {7, 14, 21} \<and> ret = uint c \<longrightarrow>
           fst rd = - 1 \<and> dmp_kept (data st) (data (snd rd)) \<and>
           mag_decoded_at e raw (unat c - 7) st (snd rd))"
proof (cases "dmp_en st \<and> (packet_len st = 28 \<or> packet_len st = 35) \<and> 0 \<le> r")
  case False
  then show ?thesis
    using read_dmp_fifo_early [OF assms(1) False]
    by (auto simp add: Let_def dmp_kept_def)
next
  case True
  then have p: "dmp_en st" "packet_len st = 28 \<or> packet_len st = 35" "0 \<le> r"
    by simp_all
  note o = read_dmp_fifo_outcome [OF p(1,2) assms(1) p(3) assms(2)]
  show ?thesis
  proof (cases "c = 0")
    case True
    then show ?thesis
      using p by (auto simp add: Let_def o dmp_kept_refl spec_fifo_table_def)
  next
    case nz: False
    show ?thesis
    proof (cases "spec_fifo_table c")
      case None
      then have "c \<notin> {7, 14, 21}"
        by (auto simp add: spec_fifo_table_def)
      then show ?thesis
        using p nz None by (simp add: Let_def o dmp_kept_refl)
    next
      case (Some t)
      obtain i m d where t: "spec_fifo_table c = Some (i, m, d)"
        using Some by (cases t) simp
      show ?thesis
      proof (cases "ret = uint c")
        case False
        then show ?thesis
          using p nz t by (simp add: Let_def o dmp_kept_refl)
      next
        case full: True
        show ?thesis
        proof (cases d)
          case False
          have c7: "c \<in> {7, 14, 21} \<and> i = unat c - 7 \<and> m"
            using t False by (auto simp add: spec_fifo_table_def split: if_splits)
          show ?thesis
            using p nz t full False c7
              outcome_mag_only [where st = st and e = e and raw = "fifo_buffer e bs" and i = i
                and m = True and h' = h']
            by (simp add: Let_def o)
        next
          case True
          have c7: "c \<notin> {7, 14, 21}"
            using t True by (auto simp add: spec_fifo_table_def split: if_splits)
          show ?thesis
            using p nz t full True c7
              outcome_parsed [where e = e and raw = "fifo_buffer e bs" and i' = i and m = m
                and st = st and h' = h' and j = "i + 7"]
              outcome_parsed [where e = e and raw = "fifo_buffer e bs" and i' = "i + 28" and m = m
                and st = st and h' = h' and j = i]
            by (auto simp add: Let_def o dmp_kept_refl)
        qed
      qed
    qed
  qed
qed

lemma bench_28_quaternion:
  "check_quaternion_validity (fifo_buffer bench_env bench_fifo_28) 7 = 0"
  "check_quaternion_validity (fifo_buffer bench_env bench_fifo_28) 0 = 1"
  by (simp_all add: bench_fifo_28_def fifo_buffer_def bench_env_def bench_defs_def
      check_quaternion_validity_def parse_long_def nth_append QUAT_MAG_SQ_MIN_def
      QUAT_MAG_SQ_MAX_def QUAT_MAG_SQ_NORMALIZED_def QUAT_ERROR_THRESH_def word_sless_alt)

lemma bench_28_accel:
  "map (parse_int16_be (fifo_buffer bench_env bench_fifo_28)) [16, 18, 20] = [9, 0, 0]"
  by (simp add: bench_fifo_28_def fifo_buffer_def bench_env_def bench_defs_def
      parse_int16_be_def nth_append)

lemma bench_28_block:
  "fifo_block_read bench_env (unat (28 :: ushort)) (hw (bench_driver 28 bench_fifo_28)) =
     ((uint (28 :: ushort), bench_fifo_28), hw (bench_driver 28 []))"
  using bench_block_read [of bench_fifo_28 28 28] by (simp add: bench_fifo_28_def)

lemma bench_7_block:
  "fifo_block_read bench_env (unat (7 :: ushort)) (hw (bench_driver 7 [1, 0, 2, 0, 3, 0, 0])) =
     ((uint (7 :: ushort), [1, 0, 2, 0, 3, 0, 0]), hw (bench_driver 7 []))"
  using bench_block_read [of "[1, 0, 2, 0, 3, 0, 0]" 7 7] by simp

lemma bench_7_decoded:
  "mag_decoded_at bench_env (fifo_buffer bench_env [1, 0, 2, 0, 3, 0, 0]) 0 (bench_driver 7 bs) st' \<longleftrightarrow>
     mag (data st') = [2 * (4912 / 32760), 4912 / 32760, - 3 * (4912 / 32760)] \<and>
     mag_scales st' = [1, 1, 1]"
  by (simp add: mag_decoded_at_def parse_int16_le_def fifo_buffer_def bench_mag_axis
      bench_unset_scale bench_driver_mag)

theorem success_iff_new_dmp_data_witness:
  "fst (read_dmp_fifo bench_env (bench_driver 28 bench_fifo_28)) = 0 \<and>
   spec_fifo_table 28 = Some (0, False, True) \<and>
   check_quaternion_validity (fifo_buffer bench_env bench_fifo_28) 0 \<noteq> 0 \<and>
   raw_accel (data (snd (read_dmp_fifo bench_env (bench_driver 28 bench_fifo_28)))) = [9, 0, 0] \<and>
   dmp_en (bench_driver 7 [1, 0, 2, 0, 3, 0, 0]) \<and>
   (7 :: ushort) \<in> {7, 14, 21} \<and>
   fst (read_dmp_fifo bench_env (bench_driver 7 [1, 0, 2, 0, 3, 0, 0])) = - 1 \<and>
   dmp_kept bench_data (data (snd (read_dmp_fifo bench_env (bench_driver 7 [1, 0, 2, 0, 3, 0, 0])))) \<and>
   mag (data (snd (read_dmp_fifo bench_env (bench_driver 7 [1, 0, 2, 0, 3, 0, 0])))) =
     [2 * (4912 / 32760), 4912 / 32760, - 3 * (4912 / 32760)]"
proof -
  let ?s28 = "bench_driver 28 bench_fifo_28"
  let ?s7 = "bench_driver 7 [1, 0, 2, 0, 3, 0, 0]"
  have t: "spec_fifo_table 28 = Some (0, False, True)"
    by (simp add: spec_fifo_table_def)
  have en: "Ex Not"
    by (rule exI [of _ False]) simp
  have a: "fst (read_dmp_fifo bench_env ?s28) = 0 \<and>
      dmp_parsed_at bench_env (fifo_buffer bench_env bench_fifo_28) 0 bench_data
        (data (snd (read_dmp_fifo bench_env ?s28)))"
    using success_iff_new_dmp_data [OF bench_count_read bench_28_block] en
    by (simp add: Let_def t bench_28_quaternion bench_driver_fields)
  then have r: "raw_accel (data (snd (read_dmp_fifo bench_env ?s28))) = [9, 0, 0]"
    using bench_28_accel by (simp add: dmp_parsed_at_def)
  have b: "fst (read_dmp_fifo bench_env ?s7) = - 1 \<and>
      dmp_kept bench_data (data (snd (read_dmp_fifo bench_env ?s7))) \<and>
      mag_decoded_at bench_env (fifo_buffer bench_env [1, 0, 2, 0, 3, 0, 0]) 0 ?s7
        (snd (read_dmp_fifo bench_env ?s7))"
    using success_iff_new_dmp_data [OF bench_count_read bench_7_block, unfolded Let_def,
        THEN conjunct2, THEN conjunct2, THEN conjunct2]
    by (simp add: bench_driver_fields)
  then have m: "mag (data (snd (read_dmp_fifo bench_env ?s7))) =
      [2 * (4912 / 32760), 4912 / 32760, - 3 * (4912 / 32760)]"
    by (simp add: bench_7_decoded)
  show ?thesis
    using a r b m by (simp add: t bench_28_quaternion bench_driver_fields)
qed

subsection \<open>An all-zero magnetometer record\<close>

lemma mag_store_dmp: "mag (store_dmp e raw j d) = mag d"
  by (simp add: store_dmp_def Let_def)

lemma fst_finish_cycle:
  "fst (finish_cycle e raw i m new st) = (if new then 0 else - 1) \<and>
   fst (snd (finish_cycle e raw i m new st)) = new"
  by (simp add: finish_cycle_def Let_def)

lemma store_mag_zero: "mag_adc raw i = [0, 0, 0] \<Longrightarrow> store_mag e raw i st = st"
  by (simp add: store_mag_def)

lemma finish_cycle_zero_mag:
  "mag_adc raw i = [0, 0, 0] \<Longrightarrow>
   finish_cycle e raw i True new st = finish_cycle e raw i False new st"
  by (simp add: finish_cycle_def store_mag_zero)

lemma mag_finish_cycle_no_mag:
  "mag (data (snd (snd (finish_cycle e raw i False new st)))) = mag (data st)"
  by (simp add: finish_cycle_def Let_def mag_data_fusion)

lemma mag_read_fifo_no_mag:
  "mag (data (snd (snd (read_fifo e c i False d st)))) = mag (data st)"
  by (simp add: read_fifo_def Let_def mag_finish_cycle_no_mag mag_store_dmp
      split: prod.splits option.splits)

lemma mag_scales_read_fifo_no_mag:
  "mag_scales (snd (snd (read_fifo e c i False d st))) = mag_scales st"
  by (simp add: read_fifo_def finish_cycle_def Let_def mag_scales_data_fusion
      split: prod.splits option.splits)

lemma read_fifo_zero_mag:
  assumes "fifo_block_read e (unat c) (hw st) = ((uint c, bs), h')"
    and "\<not> d \<and> i' = i \<or>
         (\<exists>j. d \<and> locate_quaternion (enable_magnetometer st) (fifo_buffer e bs) i = Some (j, i'))"
    and "mag_adc (fifo_buffer e bs) i' = [0, 0, 0]"
  shows "read_fifo e c i True d st = read_fifo e c i False d st"
proof (cases d)
  case True
  with assms(2) obtain j where
    l: "locate_quaternion (enable_magnetometer st) (fifo_buffer e bs) i = Some (j, i')"
    by auto
  show ?thesis
    using assms(1,3) True l by (simp add: read_fifo_def finish_cycle_zero_mag)
next
  case False
  with assms(2) have "i' = i" by auto
  then show ?thesis
    using assms(1,3) False by (simp add: read_fifo_def finish_cycle_zero_mag)
qed

lemma fst_read_fifo_parsed:
  assumes "fifo_block_read e (unat c) (hw st) = ((uint c, bs), h')"
    and "\<not> d \<and> i' = i \<or>
         (\<exists>j. d \<and> locate_quaternion (enable_magnetometer st) (fifo_buffer e bs) i = Some (j, i'))"
  shows "fst (read_fifo e c i m d st) = (if d then 0 else - 1)"
  using assms by (auto simp add: read_fifo_def fst_finish_cycle Let_def)

text \<open>
  Claim C10. When the count announces magnetometer data, the block is read in full and the
  three 16-bit values at the magnetometer offset of the cycle (\<open>i\<close> itself, or the offset
  that \<open>locate_quaternion\<close> gives) are all zero, the magnetometer field of the sample
  record and the magnetometer scales are unchanged, and the cycle is in every respect the
  cycle of a count without magnetometer data: same state, same return code, 0 with
  coprocessor data and \<open>-1\<close> without.
\<close>

theorem zero_magnetometer_record_dropped:
  assumes "dmp_en st" and "packet_len st = 28 \<or> packet_len st = 35"
    and "i2c_read_word (bus e) (FIFO_COUNTH (regs e)) (hw st) = ((r, c), h)" and "0 \<le> r"
    and "fifo_classify c = Read_Fifo i True d"
    and "fifo_block_read e (unat c) h = ((uint c, bs), h')"
    and "\<not> d \<and> i' = i \<or>
         (\<exists>j. d \<and> locate_quaternion (enable_magnetometer st) (fifo_buffer e bs) i = Some (j, i'))"
    and "mag_adc (fifo_buffer e bs) i' = [0, 0, 0]"
  shows "mag (data (snd (read_dmp_fifo e st))) = mag (data st) \<and>
         mag_scales (snd (read_dmp_fifo e st)) = mag_scales st \<and>
         read_dmp_fifo_cycle e st = read_fifo e c i False d (st\<lparr>hw := h\<rparr>) \<and>
         fst (read_dmp_fifo e st) = (if d then 0 else - 1)"
proof -
  have "read_dmp_fifo_cycle e st = read_fifo e c i True d (st\<lparr>hw := h\<rparr>)"
    using cycle_after_count [OF assms(1-4)] assms(5) by simp
  also have "\<dots> = read_fifo e c i False d (st\<lparr>hw := h\<rparr>)"
    by (rule read_fifo_zero_mag [where bs = bs and h' = h' and i' = i']) (use assms(6-8) in simp_all)
  finally have c: "read_dmp_fifo_cycle e st = read_fifo e c i False d (st\<lparr>hw := h\<rparr>)" .
  have m: "mag (data (snd (read_dmp_fifo e st))) = mag (data st)"
    using mag_read_fifo_no_mag [of e c i d "st\<lparr>hw := h\<rparr>"]
    by (cases "read_fifo e c i False d (st\<lparr>hw := h\<rparr>)") (simp add: read_dmp_fifo_def c)
  have s: "mag_scales (snd (read_dmp_fifo e st)) = mag_scales st"
    using mag_scales_read_fifo_no_mag [of e c i d "st\<lparr>hw := h\<rparr>"]
    by (cases "read_fifo e c i False d (st\<lparr>hw := h\<rparr>)") (simp add: read_dmp_fifo_def c)
  have "fst (read_fifo e c i False d (st\<lparr>hw := h\<rparr>)) = (if d then 0 else - 1)"
    by (rule fst_read_fifo_parsed [where bs = bs and h' = h' and i' = i']) (use assms(6,7) in simp_all)
  then have f: "fst (read_dmp_fifo e st) = (if d then 0 else - 1)"
    by (cases "read_fifo e c i False d (st\<lparr>hw := h\<rparr>)") (simp add: read_dmp_fifo_def c)
  show ?thesis
    using m s c f by simp
qed

theorem zero_magnetometer_record_dropped_witness:
  "dmp_en (bench_driver 35 (replicate 7 0 @ [0x40] @ replicate 27 0)) \<and>
   fifo_classify 35 = Read_Fifo 0 True True \<and>
   locate_quaternion True (fifo_buffer bench_env (replicate 7 0 @ [0x40] @ replicate 27 0)) 0 =
     Some (7, 0) \<and>
   mag_adc (fifo_buffer bench_env (replicate 7 0 @ [0x40] @ replicate 27 0)) 0 = [0, 0, 0] \<and>
   mag (data (snd (read_dmp_fifo bench_env
     (bench_driver 35 (replicate 7 0 @ [0x40] @ replicate 27 0))))) = [1, 2, 3] \<and>
   fst (read_dmp_fifo bench_env (bench_driver 35 (replicate 7 0 @ [0x40] @ replicate 27 0))) = 0"
proof -
  let ?bs = "replicate 7 0 @ [0x40] @ replicate 27 0 :: byte list"
  let ?st = "bench_driver 35 ?bs"
  let ?h = "hw (bench_driver 35 [])"
  have g: "dmp_en ?st" "packet_len ?st = 28 \<or> packet_len ?st = 35"
    by (simp_all add: bench_driver_def)
  have b: "fifo_block_read bench_env (unat (35 :: ushort)) (hw ?st) = ((uint (35 :: ushort), ?bs), ?h)"
    using bench_block_read [of ?bs 35 35] by simp
  have l: "locate_quaternion True (fifo_buffer bench_env ?bs) 0 = Some (7, 0)"
    using bench_one_packet_quaternion by (simp add: locate_quaternion_def)
  have en: "enable_magnetometer ?st"
    by (simp add: bench_driver_def)
  have o: "\<not> True \<and> 0 = (0::nat) \<or>
      (\<exists>j. True \<and> locate_quaternion (enable_magnetometer ?st) (fifo_buffer bench_env ?bs) 0 = Some (j, 0))"
    using l en by simp
  have d: "mag (data ?st) = [1, 2, 3]"
    by (simp add: bench_driver_def bench_data_def)
  show ?thesis
    using zero_magnetometer_record_dropped [OF g bench_count_read [of 35 ?bs] _
        fifo_classify_table(3) b o bench_zero_mag] g l bench_zero_mag d
    by (simp add: fifo_classify_table)
qed

subsection \<open>The interrupt thread\<close>

lemma interrupt_loop_later:
  "\<forall>seen \<in> set (interrupt_loop False evs).
     callback_invoked seen = (registered seen \<and> drain_ok seen)"
  by (induction evs) (auto simp add: Let_def)

lemma interrupt_loop_first:
  "interrupt_loop True evs = [] \<or>
   (\<exists>seen rest. interrupt_loop True evs = seen # interrupt_loop False rest \<and>
      \<not> callback_invoked seen)"
  by (induction evs) (auto simp add: Let_def)

text \<open>
  Claim C6, as the code has it. The callback is never called for the first interrupt that the
  thread handles, whether its drain succeeded or not; for every later interrupt handled it
  is called exactly when the drain succeeded and a callback is registered.
\<close>

theorem callback_skips_first_interrupt:
  "(imu_interrupt_handler opened evs \<noteq> [] \<longrightarrow>
      \<not> callback_invoked (hd (imu_interrupt_handler opened evs))) \<and>
   (\<forall>k. 0 < k \<and> k < length (imu_interrupt_handler opened evs) \<longrightarrow>
      callback_invoked (imu_interrupt_handler opened evs ! k) =
        (registered (imu_interrupt_handler opened evs ! k) \<and>
         drain_ok (imu_interrupt_handler opened evs ! k)))"
proof (cases "imu_interrupt_handler opened evs = []")
  case True
  then show ?thesis by simp
next
  case False
  then have o: "imu_interrupt_handler opened evs = interrupt_loop True evs"
    by (simp add: imu_interrupt_handler_def split: if_splits)
  with False interrupt_loop_first [of evs] obtain seen rest where
    s: "interrupt_loop True evs = seen # interrupt_loop False rest" "\<not> callback_invoked seen"
    by auto
  have "callback_invoked (interrupt_loop False rest ! n) =
      (registered (interrupt_loop False rest ! n) \<and> drain_ok (interrupt_loop False rest ! n))"
    if "n < length (interrupt_loop False rest)" for n
    using interrupt_loop_later [of rest] that by (meson nth_mem)
  then show ?thesis
    unfolding o s(1) using s(2) by (auto simp add: nth_Cons split: nat.splits)
qed

theorem callback_skips_first_interrupt_witness:
  "imu_interrupt_handler True
     [\<lparr>exiting_before = False, exiting_after = False, pollpri = True, read_ret = 0,
       interrupt_func_set = True\<rparr>,
      \<lparr>exiting_before = False, exiting_after = False, pollpri = True, read_ret = 0,
       interrupt_func_set = True\<rparr>] =
     [\<lparr>drain_ok = True, registered = True, callback_invoked = False\<rparr>,
      \<lparr>drain_ok = True, registered = True, callback_invoked = True\<rparr>] \<and>
   \<not> callback_invoked (hd (imu_interrupt_handler True
     [\<lparr>exiting_before = False, exiting_after = False, pollpri = True, read_ret = 0,
       interrupt_func_set = True\<rparr>,
      \<lparr>exiting_before = False, exiting_after = False, pollpri = True, read_ret = 0,
       interrupt_func_set = True\<rparr>]))"
  using callback_skips_first_interrupt [of True
     "[\<lparr>exiting_before = False, exiting_after = False, pollpri = True, read_ret = 0,
        interrupt_func_set = True\<rparr>,
       \<lparr>exiting_before = False, exiting_after = False, pollpri = True, read_ret = 0,
        interrupt_func_set = True\<rparr>]"]
  by (simp add: imu_interrupt_handler_def)

text \<open>
  The claim as stated fails: when the drain of the first interrupt fails and the drain of the
  second succeeds, the callback is called for the first successful drain.
\<close>

theorem first_successful_drain_callback_counterexample:
  "\<not> spec_first_success_skipped (imu_interrupt_handler True
     [\<lparr>exiting_before = False, exiting_after = False, pollpri = True, read_ret = - 1,
       interrupt_func_set = True\<rparr>,
      \<lparr>exiting_before = False, exiting_after = False, pollpri = True, read_ret = 0,
       interrupt_func_set = True\<rparr>])"
  by (simp add: spec_first_success_skipped_def imu_interrupt_handler_def)

subsection \<open>The FIFO rate\<close>

lemma ucast_low_byte: "(ucast (w AND 0xFF :: ushort) :: byte) = ucast w"
proof -
  have m: "(0xFF :: ushort) = mask 8"
    by (simp add: mask_eq_exp_minus_1)
  show ?thesis
    unfolding m by (rule bit_word_eqI) (auto simp add: bit_simps)
qed

lemma mpu_write_mem_acknowledged:
  assumes "\<forall>s reg bs. fst (bus_write (bus e) s reg bs) = 0"
    and "uint (ucast a :: byte) + int (length bs) \<le> MPU6500_BANK_SIZE (dmp e)"
  shows "mpu_write_mem e a bs h =
     (0, after_writes (bus e)
           [(MPU6500_BANK_SEL (regs e), mem_addr_bytes a), (MPU6500_MEM_R_W (regs e), bs)] h)"
proof -
  have a: "fst (i2c_write_bytes (bus e) reg bs g) = 0" for reg bs g
    using assms(1) by (simp add: i2c_write_bytes_def split_beta)
  show ?thesis
    using assms(2)
    by (simp add: mpu_write_mem_def mem_addr_bytes_def after_writes_def Let_def split_beta a
        ucast_low_byte)
qed

text \<open>
  Rates from 1 to \<open>DMP_MAX_RATE\<close>: the divider \<open>DMP_MAX_RATE / rate - 1\<close> lies between 0
  and \<open>DMP_MAX_RATE - 1\<close>, its two bytes are written at \<open>D_0_22\<close> and the twelve bytes
  of the trailer at \<open>CFG_6\<close>, and the call returns \<open>-1\<close> as soon as one of the two
  writes fails. On a bus that acknowledges every write, with both blocks inside their
  memory bank, the call returns 0 and has issued these four register writes and no other.
\<close>

lemma dmp_set_fifo_rate_accepted:
  assumes "1 \<le> uint rate" and "uint rate \<le> DMP_MAX_RATE (dmp e)"
  shows "0 \<le> spec_divider (dmp e) rate \<and> spec_divider (dmp e) rate < DMP_MAX_RATE (dmp e) \<and>
    dmp_set_fifo_rate e rate h =
      (let (r1, h1) = mpu_write_mem e (D_0_22 (dmp e))
                        (mem_addr_bytes (word_of_int (spec_divider (dmp e) rate))) h
       in if r1 \<noteq> 0 then Inr (- 1, h1)
          else let (r2, h2) = mpu_write_mem e (CFG_6 (dmp e)) (regs_end (dmp e)) h1
               in if r2 \<noteq> 0 then Inr (- 1, h2) else Inr (0, h2))"
proof (intro conjI)
  have "0 < DMP_MAX_RATE (dmp e) div uint rate"
    using assms pos_imp_zdiv_pos_iff [of "uint rate" "DMP_MAX_RATE (dmp e)"] by simp
  then show "0 \<le> spec_divider (dmp e) rate"
    by (simp add: spec_divider_def)
  have "DMP_MAX_RATE (dmp e) div uint rate \<le> DMP_MAX_RATE (dmp e)"
    using assms by (intro int_div_le_self) simp_all
  then show "spec_divider (dmp e) rate < DMP_MAX_RATE (dmp e)"
    by (simp add: spec_divider_def)
  have sd: "DMP_MAX_RATE (dmp e) sdiv uint rate = DMP_MAX_RATE (dmp e) div uint rate"
    using assms by (simp add: signed_divide_int_def sgn_if)
  define dv :: ushort where "dv = word_of_int (spec_divider (dmp e) rate)"
  have b: "[ucast (drop_bit 8 dv AND 0xFF), ucast (dv AND 0xFF)] = (mem_addr_bytes dv :: byte list)"
    by (simp add: mem_addr_bytes_def ucast_low_byte)
  show "dmp_set_fifo_rate e rate h =
      (let (r1, h1) = mpu_write_mem e (D_0_22 (dmp e))
                        (mem_addr_bytes (word_of_int (spec_divider (dmp e) rate))) h
       in if r1 \<noteq> 0 then Inr (- 1, h1)
          else let (r2, h2) = mpu_write_mem e (CFG_6 (dmp e)) (regs_end (dmp e)) h1
               in if r2 \<noteq> 0 then Inr (- 1, h2) else Inr (0, h2))"
    using assms b
    by (simp add: dmp_set_fifo_rate_def sd Let_def flip: spec_divider_def dv_def)
qed

lemma dmp_set_fifo_rate_acknowledged:
  assumes "1 \<le> uint rate" and "uint rate \<le> DMP_MAX_RATE (dmp e)"
    and "\<forall>s reg bs. fst (bus_write (bus e) s reg bs) = 0"
    and "uint (ucast (D_0_22 (dmp e)) :: byte) + 2 \<le> MPU6500_BANK_SIZE (dmp e)"
    and "uint (ucast (CFG_6 (dmp e)) :: byte) + 12 \<le> MPU6500_BANK_SIZE (dmp e)"
  shows "dmp_set_fifo_rate e rate h =
     Inr (0, after_writes (bus e)
               [(MPU6500_BANK_SEL (regs e), mem_addr_bytes (D_0_22 (dmp e))),
                (MPU6500_MEM_R_W (regs e), mem_addr_bytes (word_of_int (spec_divider (dmp e) rate))),
                (MPU6500_BANK_SEL (regs e), mem_addr_bytes (CFG_6 (dmp e))),
                (MPU6500_MEM_R_W (regs e), regs_end (dmp e))] h)"
proof -
  have l: "length (mem_addr_bytes w :: byte list) = 2" "length (regs_end (dmp e)) = 12" for w
    by (simp_all add: mem_addr_bytes_def regs_end_def)
  have w1: "mpu_write_mem e (D_0_22 (dmp e)) (mem_addr_bytes w) g =
      (0, after_writes (bus e) [(MPU6500_BANK_SEL (regs e), mem_addr_bytes (D_0_22 (dmp e))),
             (MPU6500_MEM_R_W (regs e), mem_addr_bytes w)] g)" for w g
    by (rule mpu_write_mem_acknowledged [OF assms(3)]) (simp add: l assms(4))
  have w2: "mpu_write_mem e (CFG_6 (dmp e)) (regs_end (dmp e)) g =
      (0, after_writes (bus e) [(MPU6500_BANK_SEL (regs e), mem_addr_bytes (CFG_6 (dmp e))),
             (MPU6500_MEM_R_W (regs e), regs_end (dmp e))] g)" for g
    by (rule mpu_write_mem_acknowledged [OF assms(3)]) (simp add: l assms(5))
  show ?thesis
    using dmp_set_fifo_rate_accepted [OF assms(1,2), of h]
    by (simp add: w1 w2 after_writes_def)
qed

lemma bench_fifo_rate_100:
  "dmp_set_fifo_rate bench_env 100 \<lparr>dev = (0, []), wlog = []\<rparr> =
     Inr (0, \<lparr>dev = (0, []),
              wlog = [(0x6D, [2, 22]), (0x6F, [0, 1]), (0x6D, [10, 193]),
                      (0x6F, [254, 242, 171, 196, 170, 241, 223, 223, 187, 175, 223, 223])]\<rparr>)"
  by (simp add: dmp_set_fifo_rate_def mpu_write_mem_def bench_write_bytes bench_constants
      signed_divide_int_def Let_def)


subsection \<open>Loading the firmware\<close>

lemma loop_head_loop:
  "loop_head e h0 k = Some (ii, h) \<Longrightarrow> firmware_loop e 0 h0 = firmware_loop e ii h"
proof (induction k arbitrary: ii h)
  case 0
  then show ?case by simp
next
  case (Suc k)
  from Suc.prems obtain jj g where
    p: "loop_head e h0 k = Some (jj, g)" "uint jj < DMP_CODE_SIZE (dmp e)"
      "load_chunk e jj g = (0, h)" "ii = jj + this_write (dmp e) jj"
    by (auto split: option.splits if_splits prod.splits)
  have "firmware_loop e 0 h0 = firmware_loop e jj g"
    by (rule Suc.IH [OF p(1)])
  also have "\<dots> = firmware_loop e ii h"
    using p(2-4) by (subst firmware_loop.simps) simp
  finally show ?case .
qed

lemma firmware_loop_stop:
  assumes "uint ii < DMP_CODE_SIZE (dmp e)" and "load_chunk e ii h = (r, h')" and "r \<noteq> 0"
  shows "firmware_loop e ii h = Some (r, h')"
  using assms by (subst firmware_loop.simps) simp

lemma firmware_loop_corrupt_origin:
  assumes "firmware_loop e ii h = Some y"
  shows "\<forall>k. loop_head e h0 k = Some (ii, h) \<longrightarrow> fst y = - 2 \<longrightarrow>
           (\<exists>k' jj g. loop_head e h0 k' = Some (jj, g) \<and> uint jj < DMP_CODE_SIZE (dmp e) \<and>
              load_chunk e jj g = y)"
proof (rule firmware_loop.raw_induct [where P = "\<lambda>e ii h y.
    \<forall>k. loop_head e h0 k = Some (ii, h) \<longrightarrow> fst y = - 2 \<longrightarrow>
      (\<exists>k' jj g. loop_head e h0 k' = Some (jj, g) \<and> uint jj < DMP_CODE_SIZE (dmp e) \<and>
         load_chunk e jj g = y)", OF _ assms])
  fix loop :: "('a, 'b, 'c) env \<Rightarrow> ushort \<Rightarrow> 'a hw \<Rightarrow> (int \<times> 'a hw) option"
    and e :: "('a, 'b, 'c) env" and ii h y
  assume ih: "\<And>e ii h y. loop e ii h = Some y \<Longrightarrow>
      \<forall>k. loop_head e h0 k = Some (ii, h) \<longrightarrow> fst y = - 2 \<longrightarrow>
        (\<exists>k' jj g. loop_head e h0 k' = Some (jj, g) \<and> uint jj < DMP_CODE_SIZE (dmp e) \<and>
           load_chunk e jj g = y)"
    and body: "(if uint ii < DMP_CODE_SIZE (dmp e)
        then case load_chunk e ii h of
               (r, h') \<Rightarrow> if r \<noteq> 0 then Some (r, h')
                          else loop e (ii + this_write (dmp e) ii) h'
        else Some (0, h)) = Some y"
  show "\<forall>k. loop_head e h0 k = Some (ii, h) \<longrightarrow> fst y = - 2 \<longrightarrow>
      (\<exists>k' jj g. loop_head e h0 k' = Some (jj, g) \<and> uint jj < DMP_CODE_SIZE (dmp e) \<and>
         load_chunk e jj g = y)"
  proof (intro allI impI)
    fix k
    assume hd: "loop_head e h0 k = Some (ii, h)" and c: "fst y = - 2"
    show "\<exists>k' jj g. loop_head e h0 k' = Some (jj, g) \<and> uint jj < DMP_CODE_SIZE (dmp e) \<and>
        load_chunk e jj g = y"
    proof (cases "uint ii < DMP_CODE_SIZE (dmp e)")
      case False
      with body c show ?thesis by auto
    next
      case True
      obtain r h' where l: "load_chunk e ii h = (r, h')"
        by (cases "load_chunk e ii h")
      show ?thesis
      proof (cases "r = 0")
        case False
        with body True l have "y = (r, h')" by simp
        with hd True l show ?thesis by blast
      next
        case r0: True
        with body True l
        have nx: "loop e (ii + this_write (dmp e) ii) h' = Some y" by simp
        have "loop_head e h0 (Suc k) = Some (ii + this_write (dmp e) ii, h')"
          using hd True l r0 by simp
        with ih [OF nx] c show ?thesis by blast
      qed
    qed
  qed
qed

lemma load_chunk_corrupt:
  "load_chunk e ii h = (- 2, h') \<longleftrightarrow>
     (\<exists>h1 cur. mpu_write_mem e ii (firmware_chunk (dmp e) ii) h = (0, h1) \<and>
        mpu_read_mem e ii (unat (this_write (dmp e) ii)) h1 = (0, cur, h') \<and>
        cur \<noteq> firmware_chunk (dmp e) ii)"
  by (auto simp add: load_chunk_def split: prod.splits if_splits)

lemma load_chunk_io:
  assumes "fst (mpu_write_mem e ii (firmware_chunk (dmp e) ii) h) \<noteq> 0 \<or>
           fst (mpu_read_mem e ii (unat (this_write (dmp e) ii))
                  (snd (mpu_write_mem e ii (firmware_chunk (dmp e) ii) h))) \<noteq> 0"
  shows "fst (load_chunk e ii h) = - 1"
  using assms by (auto simp add: load_chunk_def split: prod.splits if_splits)

lemma load_result_corrupt:
  "dmp_load_motion_driver_firmware e h0 = Some (- 2, h') \<longleftrightarrow>
   firmware_loop e 0 h0 = Some (- 2, h')"
  by (auto simp add: dmp_load_motion_driver_firmware_def Let_def
      split: option.splits prod.splits if_splits)

lemma length_firmware_chunk:
  assumes "0 \<le> DMP_LOAD_CHUNK dd"
  shows "int (length (firmware_chunk dd ii)) \<le> DMP_LOAD_CHUNK dd"
proof (cases "uint ii < DMP_CODE_SIZE dd")
  case True
  define m where "m = min (DMP_LOAD_CHUNK dd) (DMP_CODE_SIZE dd - uint ii)"
  have m: "0 \<le> m" "m \<le> DMP_LOAD_CHUNK dd"
    using assms True by (simp_all add: m_def)
  have "uint (word_of_int m :: ushort) \<le> m"
    using m(1) by (simp add: uint_word_of_int zmod_le_nonneg_dividend)
  then have "int (unat (this_write dd ii)) \<le> DMP_LOAD_CHUNK dd"
    using m(2) by (simp add: this_write_def flip: m_def)
  moreover have "length (firmware_chunk dd ii) \<le> unat (this_write dd ii)"
    by (simp add: firmware_chunk_def)
  ultimately show ?thesis
    by linarith
next
  case False
  then have "length (drop (unat ii) (dmp_firmware dd)) = 0"
    by (simp add: DMP_CODE_SIZE_def) (metis nat_uint_eq nat_int nat_mono not_less)
  then show ?thesis
    using assms by (simp add: firmware_chunk_def)
qed

text \<open>
  Claim C8. The load returns \<open>-2\<close> exactly when some chunk, all chunks before it having
  been written and verified, is written, read back in full and differs from the image, be
  it in one byte. When instead the write or the read-back of a chunk fails, the load returns
  \<open>-1\<close>, a different code. No chunk is longer than \<open>DMP_LOAD_CHUNK\<close>.
\<close>

theorem firmware_corruption_distinct:
  "(dmp_load_motion_driver_firmware e h0 = Some (- 2, h') \<longleftrightarrow>
      (\<exists>k ii h h1 cur. loop_head e h0 k = Some (ii, h) \<and> uint ii < DMP_CODE_SIZE (dmp e) \<and>
          mpu_write_mem e ii (firmware_chunk (dmp e) ii) h = (0, h1) \<and>
          mpu_read_mem e ii (unat (this_write (dmp e) ii)) h1 = (0, cur, h') \<and>
          cur \<noteq> firmware_chunk (dmp e) ii)) \<and>
   (\<forall>k ii h. loop_head e h0 k = Some (ii, h) \<and> uint ii < DMP_CODE_SIZE (dmp e) \<and>
        (fst (mpu_write_mem e ii (firmware_chunk (dmp e) ii) h) \<noteq> 0 \<or>
         fst (mpu_read_mem e ii (unat (this_write (dmp e) ii))
                (snd (mpu_write_mem e ii (firmware_chunk (dmp e) ii) h))) \<noteq> 0) \<longrightarrow>
        (\<exists>h''. dmp_load_motion_driver_firmware e h0 = Some (- 1, h''))) \<and>
   (\<forall>ii. 0 \<le> DMP_LOAD_CHUNK (dmp e) \<longrightarrow>
        int (length (firmware_chunk (dmp e) ii)) \<le> DMP_LOAD_CHUNK (dmp e))"
proof (intro conjI allI impI)
  show "dmp_load_motion_driver_firmware e h0 = Some (- 2, h') \<longleftrightarrow>
      (\<exists>k ii h h1 cur. loop_head e h0 k = Some (ii, h) \<and> uint ii < DMP_CODE_SIZE (dmp e) \<and>
          mpu_write_mem e ii (firmware_chunk (dmp e) ii) h = (0, h1) \<and>
          mpu_read_mem e ii (unat (this_write (dmp e) ii)) h1 = (0, cur, h') \<and>
          cur \<noteq> firmware_chunk (dmp e) ii)"
    (is "?L \<longleftrightarrow> ?R")
  proof
    assume ?L
    then have "firmware_loop e 0 h0 = Some (- 2, h')"
      by (simp add: load_result_corrupt)
    from firmware_loop_corrupt_origin [OF this, of h0, THEN spec, of 0]
    obtain k jj g where "loop_head e h0 k = Some (jj, g)" "uint jj < DMP_CODE_SIZE (dmp e)"
      "load_chunk e jj g = (- 2, h')"
      by auto
    then show ?R
      unfolding load_chunk_corrupt by blast
  next
    assume ?R
    then obtain k ii h where p: "loop_head e h0 k = Some (ii, h)" "uint ii < DMP_CODE_SIZE (dmp e)"
      "load_chunk e ii h = (- 2, h')"
      by (auto simp add: load_chunk_corrupt)
    have "firmware_loop e 0 h0 = firmware_loop e ii h"
      by (rule loop_head_loop [OF p(1)])
    also have "\<dots> = Some (- 2, h')"
      by (rule firmware_loop_stop [OF p(2,3)]) simp
    finally show ?L
      by (simp add: load_result_corrupt)
  qed
next
  fix k ii h
  assume a: "loop_head e h0 k = Some (ii, h) \<and> uint ii < DMP_CODE_SIZE (dmp e) \<and>
        (fst (mpu_write_mem e ii (firmware_chunk (dmp e) ii) h) \<noteq> 0 \<or>
         fst (mpu_read_mem e ii (unat (this_write (dmp e) ii))
                (snd (mpu_write_mem e ii (firmware_chunk (dmp e) ii) h))) \<noteq> 0)"
  then have "fst (load_chunk e ii h) = - 1"
    by (intro load_chunk_io) simp
  then obtain h'' where l: "load_chunk e ii h = (- 1, h'')"
    by (cases "load_chunk e ii h") simp
  from a have hd: "loop_head e h0 k = Some (ii, h)" and lt: "uint ii < DMP_CODE_SIZE (dmp e)"
    by simp_all
  have "firmware_loop e 0 h0 = firmware_loop e ii h"
    by (rule loop_head_loop [OF hd])
  also have "\<dots> = Some (- 1, h'')"
    by (rule firmware_loop_stop [OF lt l]) simp
  finally show "\<exists>h''. dmp_load_motion_driver_firmware e h0 = Some (- 1, h'')"
    by (simp add: dmp_load_motion_driver_firmware_def)
next
  fix ii
  assume "0 \<le> DMP_LOAD_CHUNK (dmp e)"
  then show "int (length (firmware_chunk (dmp e) ii)) \<le> DMP_LOAD_CHUNK (dmp e)"
    by (rule length_firmware_chunk)
qed

theorem firmware_corruption_distinct_witness:
  "loop_head bench_env
     \<lparr>dev = (0, [1, 2, 3, 4, 5, 6, 7, 8, 9, 10, 11, 12, 13, 14, 15, 16, 0, 0, 0, 0]), wlog = []\<rparr>
     (Suc 0) =
   Some (16, \<lparr>dev = (0, [0, 0, 0, 0]),
              wlog = [(0x6D, [0, 0]),
                      (0x6F, [1, 2, 3, 4, 5, 6, 7, 8, 9, 10, 11, 12, 13, 14, 15, 16]),
                      (0x6D, [0, 0])]\<rparr>) \<and>
   uint (16 :: ushort) < DMP_CODE_SIZE (dmp bench_env) \<and>
   dmp_load_motion_driver_firmware bench_env
     \<lparr>dev = (0, [1, 2, 3, 4, 5, 6, 7, 8, 9, 10, 11, 12, 13, 14, 15, 16, 0, 0, 0, 0]), wlog = []\<rparr> =
   Some (- 2, \<lparr>dev = (0, []),
               wlog = [(0x6D, [0, 0]),
                       (0x6F, [1, 2, 3, 4, 5, 6, 7, 8, 9, 10, 11, 12, 13, 14, 15, 16]),
                       (0x6D, [0, 0]), (0x6D, [0, 16]), (0x6F, [17, 18, 19, 20]),
                       (0x6D, [0, 16])]\<rparr>) \<and>
   0 \<le> DMP_LOAD_CHUNK (dmp bench_env) \<and>
   int (length (firmware_chunk (dmp bench_env) 16)) \<le> DMP_LOAD_CHUNK (dmp bench_env)"
proof -
  let ?start = "\<lparr>dev = (0 :: ushort, [1, 2, 3, 4, 5, 6, 7, 8, 9, 10, 11, 12, 13, 14, 15, 16, 0, 0, 0, 0 :: byte]),
              wlog = []\<rparr>"
  let ?h = "\<lparr>dev = (0 :: ushort, [0, 0, 0, 0 :: byte]),
             wlog = [(0x6D, [0, 0]),
                     (0x6F, [1, 2, 3, 4, 5, 6, 7, 8, 9, 10, 11, 12, 13, 14, 15, 16]),
                     (0x6D, [0, 0])]\<rparr>"
  let ?ha = "\<lparr>dev = (0 :: ushort, [1, 2, 3, 4, 5, 6, 7, 8, 9, 10, 11, 12, 13, 14, 15, 16, 0, 0, 0, 0 :: byte]),
              wlog = [(0x6D, [0, 0]),
                      (0x6F, [1, 2, 3, 4, 5, 6, 7, 8, 9, 10, 11, 12, 13, 14, 15, 16])]\<rparr>"
  let ?h1 = "\<lparr>dev = (0 :: ushort, [0, 0, 0, 0 :: byte]),
              wlog = [(0x6D, [0, 0]),
                      (0x6F, [1, 2, 3, 4, 5, 6, 7, 8, 9, 10, 11, 12, 13, 14, 15, 16]),
                      (0x6D, [0, 0]), (0x6D, [0, 16]), (0x6F, [17, 18, 19, 20])]\<rparr>"
  let ?h' = "\<lparr>dev = (0 :: ushort, [] :: byte list),
              wlog = [(0x6D, [0, 0]),
                      (0x6F, [1, 2, 3, 4, 5, 6, 7, 8, 9, 10, 11, 12, 13, 14, 15, 16]),
                      (0x6D, [0, 0]), (0x6D, [0, 16]), (0x6F, [17, 18, 19, 20]),
                      (0x6D, [0, 16])]\<rparr>"
  have sz: "DMP_CODE_SIZE (dmp bench_env) = 20" "DMP_LOAD_CHUNK (dmp bench_env) = 16"
    by (simp_all add: DMP_CODE_SIZE_def bench_env_def bench_dmp_def)
  have tw: "this_write (dmp bench_env) 0 = 16" "this_write (dmp bench_env) 16 = 4"
    by (simp_all add: this_write_def sz)
  have ch: "firmware_chunk (dmp bench_env) 0 =
      [1, 2, 3, 4, 5, 6, 7, 8, 9, 10, 11, 12, 13, 14, 15, 16]"
    "firmware_chunk (dmp bench_env) 16 = [17, 18, 19, 20]"
    by (simp_all add: firmware_chunk_def tw) (simp_all add: bench_env_def bench_dmp_def)
  note bk = bench_constants
  have w0: "mpu_write_mem bench_env 0 (firmware_chunk (dmp bench_env) 0) ?start = (0, ?ha)"
    by (simp add: ch mpu_write_mem_def bench_write_bytes bk)
  have r0: "mpu_read_mem bench_env 0 (unat (this_write (dmp bench_env) 0)) ?ha =
      (0, [1, 2, 3, 4, 5, 6, 7, 8, 9, 10, 11, 12, 13, 14, 15, 16], ?h)"
    by (simp add: tw mpu_read_mem_def bench_write_bytes bench_read_bytes bk)
  have l0: "load_chunk bench_env 0 ?start = (0, ?h)"
    unfolding load_chunk_def w0 by (simp add: r0) (simp add: ch)
  have hd: "loop_head bench_env ?start (Suc 0) = Some (16, ?h)"
    by (simp add: l0 sz tw)
  have w: "mpu_write_mem bench_env 16 (firmware_chunk (dmp bench_env) 16) ?h = (0, ?h1)"
    by (simp add: ch mpu_write_mem_def bench_write_bytes bk)
  have r: "mpu_read_mem bench_env 16 (unat (this_write (dmp bench_env) 16)) ?h1 =
      (0, [0, 0, 0, 0], ?h')"
    by (simp add: tw mpu_read_mem_def bench_write_bytes bench_read_bytes bk)
  have "\<exists>k ii h h1 cur. loop_head bench_env ?start k = Some (ii, h) \<and>
      uint ii < DMP_CODE_SIZE (dmp bench_env) \<and>
      mpu_write_mem bench_env ii (firmware_chunk (dmp bench_env) ii) h = (0, h1) \<and>
      mpu_read_mem bench_env ii (unat (this_write (dmp bench_env) ii)) h1 = (0, cur, ?h') \<and>
      cur \<noteq> firmware_chunk (dmp bench_env) ii"
    using hd w r by (intro exI [of _ "Suc 0"] exI [of _ 16] exI [of _ ?h] exI [of _ ?h1]
        exI [of _ "[0, 0, 0, 0]"]) (simp add: sz ch)
  then have "dmp_load_motion_driver_firmware bench_env ?start = Some (- 2, ?h')"
    using firmware_corruption_distinct [of bench_env ?start ?h'] by blast
  moreover have "int (length (firmware_chunk (dmp bench_env) 16)) \<le> DMP_LOAD_CHUNK (dmp bench_env)"
    using firmware_corruption_distinct [of bench_env ?start ?h'] sz by simp
  ultimately show ?thesis
    using hd sz by simp
qed

subsection \<open>Gyro calibration\<close>

lemma sint16_range: "- 32768 \<le> sint (x :: int16_t) \<and> sint x \<le> 32767"
  using sint_ge [of x] sint_lt [of x] by simp

lemma sum_sint16_bounds:
  "- (int (length xs) * 32768) \<le> (\<Sum>x\<leftarrow>xs. sint (x :: int16_t)) \<and>
   (\<Sum>x\<leftarrow>xs. sint x) \<le> int (length xs) * 32767"
proof (induction xs)
  case Nil
  then show ?case by simp
next
  case (Cons x xs)
  then show ?case
    using sint16_range [of x] by (simp add: algebra_simps)
qed

lemma gyro_sum_snoc: "gyro_sum (xs @ [x]) = gyro_sum xs + scast x"
  by (simp add: gyro_sum_def)

lemma sint_gyro_sum:
  "length xs \<le> 65535 \<Longrightarrow> sint (gyro_sum xs) = (\<Sum>x\<leftarrow>xs. sint x)"
proof (induction xs rule: rev_induct)
  case Nil
  then show ?case by (simp add: gyro_sum_def)
next
  case (snoc x xs)
  then have ih: "sint (gyro_sum xs) = (\<Sum>x\<leftarrow>xs. sint x)" and len: "length xs < 65535"
    by simp_all
  have sx: "sint (scast x :: 32 word) = sint x"
    by (rule sint_up_scast) (simp add: is_up)
  have b: "- (int (length xs) * 32768) \<le> (\<Sum>x\<leftarrow>xs. sint x)"
    "(\<Sum>x\<leftarrow>xs. sint x) \<le> int (length xs) * 32767"
    using sum_sint16_bounds [of xs] by simp_all
  have l: "int (length xs) * 32768 \<le> 65535 * 32768" "int (length xs) * 32767 \<le> 65535 * 32767"
    using len by simp_all
  have r: "- (2 ^ 31) \<le> (\<Sum>x\<leftarrow>xs. sint x) + sint x" "(\<Sum>x\<leftarrow>xs. sint x) + sint x < 2 ^ 31"
    using b l sint16_range [of x] by simp_all
  have "sint (gyro_sum (xs @ [x])) = signed_take_bit 31 ((\<Sum>x\<leftarrow>xs. sint x) + sint x)"
    by (simp add: gyro_sum_snoc sint_word_ariths ih sx)
  also have "\<dots> = (\<Sum>x\<leftarrow>xs. sint x) + sint x"
    using r by (intro signed_take_bit_int_eq_self) simp_all
  finally show ?case by simp
qed

lemma sdiv_mean_range:
  fixes s n :: int
  assumes "0 < n" and "- (n * 32768) \<le> s" and "s \<le> n * 32767"
  shows "- 32768 \<le> s sdiv n \<and> s sdiv n \<le> 32767"
proof (cases "0 \<le> s")
  case True
  then have e: "s sdiv n = s div n"
    using assms(1) by (simp add: signed_divide_int_def sgn_if)
  have "s div n \<le> (n * 32767) div n"
    using assms by (intro zdiv_mono1) simp_all
  moreover have "0 \<le> s div n"
    using True assms(1) by (simp add: pos_imp_zdiv_nonneg_iff)
  ultimately show ?thesis
    using assms(1) by (simp add: e)
next
  case False
  then have e: "s sdiv n = - ((- s) div n)"
    using assms(1) by (simp add: signed_divide_int_def sgn_if)
  have "(- s) div n \<le> (n * 32768) div n"
    using assms by (intro zdiv_mono1) simp_all
  moreover have "0 \<le> (- s) div n"
    using False assms(1) by (simp add: pos_imp_zdiv_nonneg_iff)
  ultimately show ?thesis
    using assms(1) by (simp add: e)
qed

lemma sint_gyro_offset:
  assumes "0 < n" and "int (length xs) = n" and "n \<le> 65535"
  shows "sint (gyro_offset n xs) = spec_mean_offset xs"
proof -
  have len: "length xs \<le> 65535"
    using assms by linarith
  have s: "sint (gyro_sum xs) = (\<Sum>x\<leftarrow>xs. sint x)"
    by (rule sint_gyro_sum [OF len])
  have r: "- 32768 \<le> (\<Sum>x\<leftarrow>xs. sint x) sdiv n \<and> (\<Sum>x\<leftarrow>xs. sint x) sdiv n \<le> 32767"
    using sum_sint16_bounds [of xs] assms by (intro sdiv_mean_range) simp_all
  have "sint (gyro_offset n xs) = signed_take_bit 15 ((\<Sum>x\<leftarrow>xs. sint x) sdiv n)"
    by (simp add: gyro_offset_def s sint_sbintrunc')
  also have "\<dots> = (\<Sum>x\<leftarrow>xs. sint x) sdiv n"
    using r by (intro signed_take_bit_int_eq_self) simp_all
  finally show ?thesis
    by (simp add: spec_mean_offset_def assms(2))
qed

lemma length_read_samples:
  "read_samples e k buf h = (Some ss, buf', h') \<Longrightarrow> length ss = k"
  by (induction k arbitrary: buf h ss buf' h')
    (auto simp add: Let_def split: prod.splits if_splits option.splits)

lemma gather_samples:
  assumes "gather e buf g = (n, Some ss, buf', h')"
  shows "length ss = nat n \<and> n \<le> 5461"
proof -
  obtain fc :: int16_t and b4 h4 where n: "n = sint fc sdiv 6"
    and r: "read_samples e (nat n) b4 h4 = (Some ss, buf', h')"
    using assms by (auto simp add: gather_def Let_def split: prod.splits)
  have "n \<le> 5461"
  proof (cases "0 \<le> sint fc")
    case True
    then have "n = sint fc div 6"
      by (simp add: n signed_divide_int_def sgn_if)
    also have "\<dots> \<le> 32767 div 6"
      using sint16_range [of fc] by (intro zdiv_mono1) simp_all
    finally show ?thesis by simp
  next
    case False
    then have "n = - ((- sint fc) div 6)"
      by (simp add: n signed_divide_int_def sgn_if)
    moreover have "0 \<le> (- sint fc) div 6"
      using False by (simp add: pos_imp_zdiv_nonneg_iff)
    ultimately show ?thesis by simp
  qed
  then show ?thesis
    using length_read_samples [OF r] by simp
qed

lemma gyro_offsets_mean:
  assumes "gather e buf g = (n, Some ss, buf', h')" and "0 < n"
  shows "map sint (gyro_offsets n ss) =
     [spec_mean_offset (map fst ss), spec_mean_offset (map (fst \<circ> snd) ss),
      spec_mean_offset (map (snd \<circ> snd) ss)]"
proof -
  have l: "int (length ss) = n" "n \<le> 65535"
    using gather_samples [OF assms(1)] assms(2) by simp_all
  show ?thesis
    using l assms(2) by (simp add: gyro_offsets_def sint_gyro_offset)
qed

lemma gyro_offsets_empty:
  assumes "gather e buf g = (n, Some ss, buf', h')" and "n < 0"
  shows "ss = [] \<and> map sint (gyro_offsets n ss) = [0, 0, 0]"
proof -
  have "ss = []"
    using gather_samples [OF assms(1)] assms(2) by simp
  then show ?thesis
    by (simp add: gyro_offsets_def gyro_offset_def gyro_sum_def)
qed

lemma too_noisy_spec: "too_noisy e xs \<longleftrightarrow> \<not> spec_axis_quiet e xs"
proof -
  have "f_of_int16 (fp e) = (\<lambda>x. f_of_rat (fp e) (of_int (sint x)))"
    by (simp add: fun_eq_iff f_of_int16_def)
  then show ?thesis
    by (simp add: too_noisy_def spec_axis_quiet_def GYRO_CAL_THRESH_def)
qed

lemma noisy_spec: "noisy e ss \<longleftrightarrow> \<not> spec_quiet e ss"
  by (auto simp add: noisy_def too_noisy_spec spec_quiet_def)

lemma write_gyro_offsets:
  "write_gyro_offets_to_disk fs (gyro_offsets n ss) =
     (if fs = Written then 0 else - 1,
      case fs of Open_Failed \<Rightarrow> Untouched | Write_Failed \<Rightarrow> Truncated
      | Written \<Rightarrow> Stored (map sint (gyro_offsets n ss)))"
  by (cases fs) (simp_all add: write_gyro_offets_to_disk_def gyro_offsets_def)

lemma out_of_bounds_spec:
  "out_of_bounds (gyro_offsets n ss) \<longleftrightarrow> \<not> spec_within_bounds (map sint (gyro_offsets n ss))"
  by (auto simp add: out_of_bounds_def spec_within_bounds_def gyro_offsets_def
      GYRO_OFFSET_THRESH_def)

lemma collect_attempt_cases:
  assumes "gather e buf h = (n, Some ss, buf', h')"
  shows "collect_attempt e fs buf h =
     (if \<not> spec_quiet e ss then Retry buf' h'
      else if n = 0 then Finished (Inl DivisionByZero) Untouched h'
      else if \<not> spec_within_bounds (map sint (gyro_offsets n ss)) then Retry buf' h'
      else Finished (Inr (if fs = Written then 0 else - 1))
             (case fs of Open_Failed \<Rightarrow> Untouched | Write_Failed \<Rightarrow> Truncated
              | Written \<Rightarrow> Stored (map sint (gyro_offsets n ss))) h')"
  using assms
  by (simp add: collect_attempt_def noisy_spec out_of_bounds_spec write_gyro_offsets)

lemma collect_attempt_finished:
  assumes "collect_attempt e fs buf g = Finished r eff h'" and "eff \<noteq> Untouched"
  shows "\<exists>n ss buf'. gather e buf g = (n, Some ss, buf', h') \<and> n \<noteq> 0 \<and> spec_quiet e ss \<and>
           spec_within_bounds (map sint (gyro_offsets n ss)) \<and>
           (eff = Truncated \<or> eff = Stored (map sint (gyro_offsets n ss)))"
proof -
  obtain n got buf' g' where g: "gather e buf g = (n, got, buf', g')"
    by (cases "gather e buf g") auto
  show ?thesis
  proof (cases got)
    case None
    then show ?thesis
      using assms g by (simp add: collect_attempt_def)
  next
    case (Some ss)
    then show ?thesis
      using assms g collect_attempt_cases [of e buf g n ss buf' g' fs]
      by (auto split: if_splits disk_result.splits)
  qed
qed

lemma attempt_head_shift:
  "attempt_head e fs buf h (Suc k) =
     (case collect_attempt e fs buf h of
        Retry buf' h' \<Rightarrow> attempt_head e fs buf' h' k
      | Finished r eff h' \<Rightarrow> None)"
proof (induction k)
  case 0
  then show ?case
    by (simp split: attempt.splits)
next
  case (Suc k)
  have "attempt_head e fs buf h (Suc (Suc k)) =
      (case attempt_head e fs buf h (Suc k) of
         None \<Rightarrow> None
       | Some (b, g) \<Rightarrow>
           (case collect_attempt e fs b g of
              Retry b' g' \<Rightarrow> Some (b', g')
            | Finished r eff g' \<Rightarrow> None))"
    by simp
  then show ?case
    unfolding Suc by (simp split: attempt.splits)
qed

lemma collect_data_head:
  "attempt_head e fs buf h k = Some (b, g) \<Longrightarrow> collect_data e fs buf h = collect_data e fs b g"
proof (induction k arbitrary: b g)
  case 0
  then show ?case by simp
next
  case (Suc k)
  then obtain b1 g1 where h: "attempt_head e fs buf h k = Some (b1, g1)"
    and a: "collect_attempt e fs b1 g1 = Retry b g"
    by (auto split: option.splits attempt.splits)
  have "collect_data e fs buf h = collect_data e fs b1 g1"
    by (rule Suc.IH [OF h])
  also have "\<dots> = collect_data e fs b g"
    by (subst collect_data.simps) (simp add: a)
  finally show ?case .
qed

lemma collect_data_origin:
  assumes "collect_data e fs buf h = Some y"
  shows "\<exists>k b g. attempt_head e fs buf h k = Some (b, g) \<and>
           collect_attempt e fs b g = Finished (fst y) (fst (snd y)) (snd (snd y))"
proof (rule collect_data.raw_induct [where P = "\<lambda>e fs buf h y.
     \<exists>k b g. attempt_head e fs buf h k = Some (b, g) \<and>
       collect_attempt e fs b g = Finished (fst y) (fst (snd y)) (snd (snd y))", OF _ assms])
  fix again :: "('a, 'b, 'c) env \<Rightarrow> disk_result \<Rightarrow> byte list \<Rightarrow> 'a hw \<Rightarrow>
      ((fault + int) \<times> disk_effect \<times> 'a hw) option"
    and e :: "('a, 'b, 'c) env" and fs buf h y
  assume ih: "\<And>e fs buf h y. again e fs buf h = Some y \<Longrightarrow>
     \<exists>k b g. attempt_head e fs buf h k = Some (b, g) \<and>
       collect_attempt e fs b g = Finished (fst y) (fst (snd y)) (snd (snd y))"
    and body: "(case collect_attempt e fs buf h of
                  Retry buf' h' \<Rightarrow> again e fs buf' h'
                | Finished r eff h' \<Rightarrow> Some (r, eff, h')) = Some y"
  show "\<exists>k b g. attempt_head e fs buf h k = Some (b, g) \<and>
       collect_attempt e fs b g = Finished (fst y) (fst (snd y)) (snd (snd y))"
  proof (cases "collect_attempt e fs buf h")
    case (Retry buf' h')
    with body have "again e fs buf' h' = Some y" by simp
    then obtain k b g where k: "attempt_head e fs buf' h' k = Some (b, g)"
      and f: "collect_attempt e fs b g = Finished (fst y) (fst (snd y)) (snd (snd y))"
      using ih by blast
    have "attempt_head e fs buf h (Suc k) = Some (b, g)"
      by (simp only: attempt_head_shift Retry attempt.case k)
    then show ?thesis
      using f by blast
  next
    case (Finished r eff h')
    with body have y: "y = (r, eff, h')" by simp
    have "attempt_head e fs buf h 0 = Some (buf, h)"
      by simp
    then show ?thesis
      using Finished y by (intro exI [of _ 0] exI [of _ buf] exI [of _ h]) simp
  qed
qed

text \<open>
  Claim C9. When the routine returns and the calibration file was touched, the attempt
  that touched it was reached from the start through attempts that all went back to
  \<open>COLLECT_DATA\<close>, and its data set is quiet (no axis with a standard deviation above 50)
  with offsets inside the bound (no axis with a magnitude above 500); what is stored are
  those offsets, which for a data set of at least one sample are the per-axis means of the
  samples, and which are all 0 when the sample count taken from the buffer is negative and
  no sample was read. An attempt whose data set is noisy, or whose offsets are out of
  bounds, ends at the jump back to \<open>COLLECT_DATA\<close>, before the call that writes to disk,
  and the routine goes on from the buffer and the hardware that the attempt left. An attempt
  that is quiet and inside the bound ends the routine with the result of the write to
  disk.
\<close>

theorem gyro_offsets_persisted_only_when_quiet:
  "(collect_data e fs buf h = Some (r, eff, h') \<and> eff \<noteq> Untouched \<longrightarrow>
      (\<exists>k b g n ss b'. attempt_head e fs buf h k = Some (b, g) \<and>
         gather e b g = (n, Some ss, b', h') \<and> n \<noteq> 0 \<and> length ss = nat n \<and>
         spec_quiet e ss \<and> spec_within_bounds (map sint (gyro_offsets n ss)) \<and>
         (eff = Truncated \<or> eff = Stored (map sint (gyro_offsets n ss))) \<and>
         (if 0 < n
          then map sint (gyro_offsets n ss) =
                 [spec_mean_offset (map fst ss), spec_mean_offset (map (fst \<circ> snd) ss),
                  spec_mean_offset (map (snd \<circ> snd) ss)]
          else ss = [] \<and> map sint (gyro_offsets n ss) = [0, 0, 0]))) \<and>
   (attempt_head e fs buf h k = Some (b, g) \<and> gather e b g = (n, Some ss, b', g') \<and>
      (\<not> spec_quiet e ss \<or> n \<noteq> 0 \<and> \<not> spec_within_bounds (map sint (gyro_offsets n ss))) \<longrightarrow>
      collect_attempt e fs b g = Retry b' g' \<and>
      attempt_head e fs buf h (Suc k) = Some (b', g') \<and>
      collect_data e fs buf h = collect_data e fs b' g') \<and>
   (attempt_head e fs buf h k = Some (b, g) \<and> gather e b g = (n, Some ss, b', g') \<and>
      spec_quiet e ss \<and> n \<noteq> 0 \<and> spec_within_bounds (map sint (gyro_offsets n ss)) \<longrightarrow>
      collect_data e fs buf h =
        Some (Inr (if fs = Written then 0 else - 1),
              (case fs of Open_Failed \<Rightarrow> Untouched | Write_Failed \<Rightarrow> Truncated
               | Written \<Rightarrow> Stored (map sint (gyro_offsets n ss))), g'))"
proof (intro conjI impI)
  assume a: "collect_data e fs buf h = Some (r, eff, h') \<and> eff \<noteq> Untouched"
  then obtain k b g where k: "attempt_head e fs buf h k = Some (b, g)"
    and f: "collect_attempt e fs b g = Finished r eff h'"
    using collect_data_origin [of e fs buf h "(r, eff, h')"] by auto
  obtain n ss b' where o: "gather e b g = (n, Some ss, b', h')" "n \<noteq> 0" "spec_quiet e ss"
    "spec_within_bounds (map sint (gyro_offsets n ss))"
    "eff = Truncated \<or> eff = Stored (map sint (gyro_offsets n ss))"
    using collect_attempt_finished [OF f] a by blast
  have l: "length ss = nat n"
    using gather_samples [OF o(1)] by simp
  have m: "if 0 < n
      then map sint (gyro_offsets n ss) =
             [spec_mean_offset (map fst ss), spec_mean_offset (map (fst \<circ> snd) ss),
              spec_mean_offset (map (snd \<circ> snd) ss)]
      else ss = [] \<and> map sint (gyro_offsets n ss) = [0, 0, 0]"
  proof (cases "0 < n")
    case True
    then show ?thesis
      using gyro_offsets_mean [OF o(1)] by simp
  next
    case False
    then have "n < 0"
      using o(2) by simp
    then show ?thesis
      using gyro_offsets_empty [OF o(1)] False by auto
  qed
  show "\<exists>k b g n ss b'. attempt_head e fs buf h k = Some (b, g) \<and>
         gather e b g = (n, Some ss, b', h') \<and> n \<noteq> 0 \<and> length ss = nat n \<and>
         spec_quiet e ss \<and> spec_within_bounds (map sint (gyro_offsets n ss)) \<and>
         (eff = Truncated \<or> eff = Stored (map sint (gyro_offsets n ss))) \<and>
         (if 0 < n
          then map sint (gyro_offsets n ss) =
                 [spec_mean_offset (map fst ss), spec_mean_offset (map (fst \<circ> snd) ss),
                  spec_mean_offset (map (snd \<circ> snd) ss)]
          else ss = [] \<and> map sint (gyro_offsets n ss) = [0, 0, 0])"
    using k o l m
    by (intro exI [of _ k] exI [of _ b] exI [of _ g] exI [of _ n] exI [of _ ss] exI [of _ b'])
      simp
next
  assume a: "attempt_head e fs buf h k = Some (b, g) \<and> gather e b g = (n, Some ss, b', g') \<and>
      (\<not> spec_quiet e ss \<or> n \<noteq> 0 \<and> \<not> spec_within_bounds (map sint (gyro_offsets n ss)))"
  then show r: "collect_attempt e fs b g = Retry b' g'"
    using collect_attempt_cases [of e b g n ss b' g' fs] by auto
  then show s: "attempt_head e fs buf h (Suc k) = Some (b', g')"
    using a by simp
  show "collect_data e fs buf h = collect_data e fs b' g'"
    by (rule collect_data_head [OF s])
next
  assume a: "attempt_head e fs buf h k = Some (b, g) \<and> gather e b g = (n, Some ss, b', g') \<and>
      spec_quiet e ss \<and> n \<noteq> 0 \<and> spec_within_bounds (map sint (gyro_offsets n ss))"
  then have "collect_attempt e fs b g =
      Finished (Inr (if fs = Written then 0 else - 1))
        (case fs of Open_Failed \<Rightarrow> Untouched | Write_Failed \<Rightarrow> Truncated
         | Written \<Rightarrow> Stored (map sint (gyro_offsets n ss))) g'"
    using collect_attempt_cases [of e b g n ss b' g' fs] by simp
  moreover have "collect_data e fs buf h = collect_data e fs b g"
    using a collect_data_head by blast
  ultimately show "collect_data e fs buf h =
        Some (Inr (if fs = Written then 0 else - 1),
              (case fs of Open_Failed \<Rightarrow> Untouched | Write_Failed \<Rightarrow> Truncated
               | Written \<Rightarrow> Stored (map sint (gyro_offsets n ss))), g')"
    by (subst (asm) (2) collect_data.simps) simp
qed

lemma root_below_eq:
  "k * k \<le> n \<Longrightarrow> n < Suc k * Suc k \<Longrightarrow> k \<le> m \<Longrightarrow> root_below n m = k"
proof (induction m)
  case 0
  then show ?case by simp
next
  case (Suc m)
  show ?case
  proof (cases "Suc m * Suc m \<le> n")
    case True
    then have "Suc m * Suc m < Suc k * Suc k"
      using Suc.prems(2) by simp
    then have "Suc m < Suc k"
      using mult_less_cancel2 [of "Suc m" "Suc k" "Suc k"] mult_le_mono1 [of "Suc k" "Suc m" "Suc m"]
      by (metis linorder_not_less mult_le_mono order.strict_trans1 less_irrefl)
    then show ?thesis
      using True Suc.prems(3) by simp
  next
    case False
    then have "k * k < Suc m * Suc m"
      using Suc.prems(1) by simp
    then have "k < Suc m"
      by (metis linorder_not_less mult_le_mono less_irrefl order.strict_trans1)
    then show ?thesis
      using False Suc by simp
  qed
qed

lemma bench_roots:
  "root_below 10000 10000 = 100" "root_below 9409 9409 = 97"
  by (rule root_below_eq; simp)+

lemma bench_deviations:
  "bench_standard_deviation [100, - 100] = 100"
  "bench_standard_deviation [200, 6] = 97"
  "bench_standard_deviation [12, 14] = 1"
  "bench_standard_deviation [6] = 0"
  "bench_standard_deviation [0] = 0"
  "bench_standard_deviation [0, 0] = 0"
  by (simp_all add: bench_standard_deviation_def Let_def bench_roots)

lemma bench_axis_quiet:
  "spec_axis_quiet bench_env xs \<longleftrightarrow>
     \<not> bench_standard_deviation (map (\<lambda>x. of_int (sint x)) xs) > 50"
  by (simp add: spec_axis_quiet_def bench_env_def bench_lib_def bench_fp_def)

lemma bench_gyro_enable:
  "FIFO_GYRO_X_EN (defs bench_env) OR FIFO_GYRO_Y_EN (defs bench_env) OR
     FIFO_GYRO_Z_EN (defs bench_env) = 0x70"
  "USER_CTRL (regs bench_env) = 0x6A" "FIFO_EN (regs bench_env) = 0x23"
  "FIFO_COUNTH (regs bench_env) = 0x72" "FIFO_R_W (regs bench_env) = 0x74"
  by (simp_all add: bench_env_def bench_defs_def bench_regs_def)

lemma bench_gather_noisy:
  "gather bench_env [0, 0, 0, 0, 0, 0] \<lparr>dev = (0, bench_queue), wlog = []\<rparr> =
     (2, Some [(100, 0, 0), (- 100, 0, 0)], [0xFF, 0x9C, 0, 0, 0, 0],
      \<lparr>dev = (0, [0, 12, 0, 12, 0, 0, 0, 0, 0, 14, 0, 0, 0, 0]), wlog = bench_cal_writes\<rparr>)"
proof -
  have k: "sint (parse_int16_be [0, 12, 0, 0, 0, 0] 0) sdiv 6 = 2"
    by (simp add: parse_int16_be_def signed_divide_int_def)
  show ?thesis
    unfolding gather_def Let_def bench_write_byte snd_conv bench_read_into bench_gyro_enable
      bench_queue_def
    by (simp add: k read_samples_two bench_read_into parse_int16_be_def bench_cal_writes_def
        bench_gyro_enable)
qed

lemma bench_gather_quiet:
  "gather bench_env [0xFF, 0x9C, 0, 0, 0, 0]
     \<lparr>dev = (0, [0, 12, 0, 12, 0, 0, 0, 0, 0, 14, 0, 0, 0, 0]), wlog = bench_cal_writes\<rparr> =
     (2, Some [(12, 0, 0), (14, 0, 0)], [0, 14, 0, 0, 0, 0],
      \<lparr>dev = (0, []), wlog = bench_cal_writes @ bench_cal_writes\<rparr>)"
proof -
  have k: "sint (parse_int16_be [0, 12, 0, 0, 0, 0] 0) sdiv 6 = 2"
    by (simp add: parse_int16_be_def signed_divide_int_def)
  show ?thesis
    unfolding gather_def Let_def bench_write_byte snd_conv bench_read_into bench_gyro_enable
    by (simp add: k read_samples_two bench_read_into parse_int16_be_def bench_cal_writes_def
        bench_gyro_enable)
qed

lemma bench_gather_short:
  "gather bench_env [0, 0, 0, 0, 0, 0] \<lparr>dev = (0, bench_short_queue), wlog = []\<rparr> =
     (2, Some [(200, 0, 0), (6, 0, 0)], [0, 6, 0, 0, 0, 0],
      \<lparr>dev = (0, []), wlog = bench_cal_writes\<rparr>)"
proof -
  have k: "sint (parse_int16_be [0, 12, 0, 0, 0, 0] 0) sdiv 6 = 2"
    by (simp add: parse_int16_be_def signed_divide_int_def)
  show ?thesis
    unfolding gather_def Let_def bench_write_byte snd_conv bench_read_into bench_gyro_enable
      bench_short_queue_def
    by (simp add: k read_samples_two bench_read_into parse_int16_be_def bench_cal_writes_def
        bench_gyro_enable)
qed

lemma bench_gather_stale:
  "gather bench_env [0, 6, 0, 0, 0, 0] \<lparr>dev = (0, []), wlog = bench_cal_writes\<rparr> =
     (1, Some [(6, 0, 0)], [0, 6, 0, 0, 0, 0],
      \<lparr>dev = (0, []), wlog = bench_cal_writes @ bench_cal_writes\<rparr>)"
proof -
  have k: "sint (parse_int16_be [0, 6, 0, 0, 0, 0] 0) sdiv 6 = 1"
    by (simp add: parse_int16_be_def signed_divide_int_def)
  show ?thesis
    unfolding gather_def Let_def bench_write_byte snd_conv bench_read_into bench_gyro_enable
    by (simp add: k bench_read_into parse_int16_be_def bench_cal_writes_def bench_gyro_enable)
qed

lemma bench_quiet:
  "\<not> spec_quiet bench_env [(100, 0, 0), (- 100, 0, 0)]"
  "\<not> spec_quiet bench_env [(200, 0, 0), (6, 0, 0)]"
  "spec_quiet bench_env [(12, 0, 0), (14, 0, 0)]"
  "spec_quiet bench_env [(6, 0, 0)]"
  by (simp_all add: spec_quiet_def bench_axis_quiet bench_deviations)

lemma bench_offsets:
  "map sint (gyro_offsets 2 [(12, 0, 0), (14, 0, 0)]) = [13, 0, 0]"
  "map sint (gyro_offsets 1 [(6, 0, 0)]) = [6, 0, 0]"
  by (simp_all add: gyro_offsets_def gyro_offset_def gyro_sum_def signed_divide_int_def)

theorem gyro_offsets_persisted_only_when_quiet_witness:
  "gather bench_env [0, 0, 0, 0, 0, 0] \<lparr>dev = (0, bench_queue), wlog = []\<rparr> =
     (2, Some [(100, 0, 0), (- 100, 0, 0)], [0xFF, 0x9C, 0, 0, 0, 0],
      \<lparr>dev = (0, [0, 12, 0, 12, 0, 0, 0, 0, 0, 14, 0, 0, 0, 0]), wlog = bench_cal_writes\<rparr>) \<and>
   \<not> spec_quiet bench_env [(100, 0, 0), (- 100, 0, 0)] \<and>
   attempt_head bench_env Written [0, 0, 0, 0, 0, 0] \<lparr>dev = (0, bench_queue), wlog = []\<rparr> 1 =
     Some ([0xFF, 0x9C, 0, 0, 0, 0],
           \<lparr>dev = (0, [0, 12, 0, 12, 0, 0, 0, 0, 0, 14, 0, 0, 0, 0]), wlog = bench_cal_writes\<rparr>) \<and>
   spec_quiet bench_env [(12, 0, 0), (14, 0, 0)] \<and>
   spec_within_bounds [13, 0, 0] \<and>
   collect_data bench_env Written [0, 0, 0, 0, 0, 0] \<lparr>dev = (0, bench_queue), wlog = []\<rparr> =
     Some (Inr 0, Stored [13, 0, 0],
           \<lparr>dev = (0, []), wlog = bench_cal_writes @ bench_cal_writes\<rparr>) \<and>
   (\<exists>k b g n ss b'.
      attempt_head bench_env Written [0, 0, 0, 0, 0, 0] \<lparr>dev = (0, bench_queue), wlog = []\<rparr> k =
        Some (b, g) \<and>
      gather bench_env b g =
        (n, Some ss, b', \<lparr>dev = (0, []), wlog = bench_cal_writes @ bench_cal_writes\<rparr>) \<and>
      spec_quiet bench_env ss \<and> Stored [13, 0, 0] = Stored (map sint (gyro_offsets n ss))) \<and>
   collect_data bench_env Written [0, 0, 0, 0, 0, 0] \<lparr>dev = (0, bench_short_queue), wlog = []\<rparr> =
     Some (Inr 0, Stored [6, 0, 0],
           \<lparr>dev = (0, []), wlog = bench_cal_writes @ bench_cal_writes\<rparr>)"
proof -
  let ?buf = "[0, 0, 0, 0, 0, 0] :: byte list"
  let ?start = "\<lparr>dev = (0 :: ushort, bench_queue), wlog = []\<rparr>"
  let ?kept = "[0xFF, 0x9C, 0, 0, 0, 0] :: byte list"
  let ?second = "\<lparr>dev = (0 :: ushort, [0, 12, 0, 12, 0, 0, 0, 0, 0, 14, 0, 0, 0, 0 :: byte]),
              wlog = bench_cal_writes\<rparr>"
  let ?last = "\<lparr>dev = (0 :: ushort, [] :: byte list), wlog = bench_cal_writes @ bench_cal_writes\<rparr>"
  let ?short = "\<lparr>dev = (0 :: ushort, bench_short_queue), wlog = []\<rparr>"
  let ?dry = "\<lparr>dev = (0 :: ushort, [] :: byte list), wlog = bench_cal_writes\<rparr>"
  have w: "spec_within_bounds [13, 0, 0]" "spec_within_bounds [6, 0, 0]"
    by (simp_all add: spec_within_bounds_def)
  have z: "attempt_head bench_env Written ?buf ?start 0 = Some (?buf, ?start)"
    "attempt_head bench_env Written ?buf ?short 0 = Some (?buf, ?short)"
    by simp_all
  have a1: "attempt_head bench_env Written ?buf ?start (Suc 0) = Some (?kept, ?second)"
    using gyro_offsets_persisted_only_when_quiet
      [where e = bench_env and fs = Written and buf = ?buf and h = ?start and k = 0 and b = ?buf
         and g = ?start and n = 2 and ss = "[(100, 0, 0), (- 100, 0, 0)]" and b' = ?kept and g' = ?second,
       THEN conjunct2, THEN conjunct1]
      z(1) bench_gather_noisy bench_quiet(1)
    by simp
  have c: "collect_data bench_env Written ?buf ?start = Some (Inr 0, Stored [13, 0, 0], ?last)"
    using gyro_offsets_persisted_only_when_quiet
      [where e = bench_env and fs = Written and buf = ?buf and h = ?start and k = "Suc 0"
         and b = ?kept and g = ?second and n = 2 and ss = "[(12, 0, 0), (14, 0, 0)]"
         and b' = "[0, 14, 0, 0, 0, 0]" and g' = ?last,
       THEN conjunct2, THEN conjunct2]
      a1 bench_gather_quiet bench_quiet(3) w(1)
    by (simp add: bench_offsets)
  have "\<exists>k b g n ss b'. attempt_head bench_env Written ?buf ?start k = Some (b, g) \<and>
      gather bench_env b g = (n, Some ss, b', ?last) \<and> n \<noteq> 0 \<and> length ss = nat n \<and>
      spec_quiet bench_env ss \<and> spec_within_bounds (map sint (gyro_offsets n ss)) \<and>
      (Stored [13, 0, 0] = Truncated \<or> Stored [13, 0, 0] = Stored (map sint (gyro_offsets n ss))) \<and>
      (if 0 < n
       then map sint (gyro_offsets n ss) =
              [spec_mean_offset (map fst ss), spec_mean_offset (map (fst \<circ> snd) ss),
               spec_mean_offset (map (snd \<circ> snd) ss)]
       else ss = [] \<and> map sint (gyro_offsets n ss) = [0, 0, 0])"
    by (rule gyro_offsets_persisted_only_when_quiet
      [where e = bench_env and fs = Written and buf = ?buf and h = ?start and r = "Inr 0"
         and eff = "Stored [13, 0, 0]" and h' = ?last, THEN conjunct1, THEN mp]) (simp add: c)
  then have o: "\<exists>k b g n ss b'. attempt_head bench_env Written ?buf ?start k = Some (b, g) \<and>
      gather bench_env b g = (n, Some ss, b', ?last) \<and>
      spec_quiet bench_env ss \<and> Stored [13, 0, 0] = Stored (map sint (gyro_offsets n ss))"
    by (elim exE conjE disjE, simp, intro exI conjI)
  have s1: "attempt_head bench_env Written ?buf ?short (Suc 0) = Some ([0, 6, 0, 0, 0, 0], ?dry)"
    using gyro_offsets_persisted_only_when_quiet
      [where e = bench_env and fs = Written and buf = ?buf and h = ?short and k = 0 and b = ?buf
         and g = ?short and n = 2 and ss = "[(200, 0, 0), (6, 0, 0)]" and b' = "[0, 6, 0, 0, 0, 0]"
         and g' = ?dry,
       THEN conjunct2, THEN conjunct1]
      z(2) bench_gather_short bench_quiet(2)
    by simp
  have s: "collect_data bench_env Written ?buf ?short = Some (Inr 0, Stored [6, 0, 0], ?last)"
    using gyro_offsets_persisted_only_when_quiet
      [where e = bench_env and fs = Written and buf = ?buf and h = ?short and k = "Suc 0"
         and b = "[0, 6, 0, 0, 0, 0]" and g = ?dry and n = 1 and ss = "[(6, 0, 0)]"
         and b' = "[0, 6, 0, 0, 0, 0]" and g' = ?last,
       THEN conjunct2, THEN conjunct2]
      s1 bench_gather_stale bench_quiet(4) w(2)
    by (simp add: bench_offsets)
  show ?thesis
    using bench_gather_noisy bench_quiet(1,3) a1 w(1) c o s
    by (simp del: attempt_head.simps)
qed

end
